theory Spec2Isabelle
  imports Complex_Main
begin

section \<open>Data model of the renderer (src/renderer/main.js)\<close>

text \<open>
  JavaScript numbers are modelled as rationals. Every rate that the rate ladder reaches
  from 1 is a dyadic rational of small magnitude, on which the double arithmetic of the
  source (\<open>+ 0.25\<close>, \<open>- 0.25\<close>, \<open>* 2\<close>, \<open>/ 2\<close>) is exact, so the model and the source
  agree there. The rationals have no \<open>NaN\<close> and no infinities: the model speaks about
  numbers. Strings stay strings: \<open>state.playing.location\<close> and \<open>state.playing.type\<close>
  hold the same literals as in the source.
\<close>

record subtitle_track =
  buffer :: string
  language :: string
  label :: string
  filePath :: string

record subtitles_state =
  tracks :: "subtitle_track list"
  selectedIndex :: int
  showMenu :: bool

text \<open>\<open>state.playing\<close>: the fields that the modelled functions read or write.
  \<open>mediaType\<close> is \<open>state.playing.type\<close>, \<open>setVolumeReq\<close> is \<open>state.playing.setVolume\<close>
  (a request that the view applies to the media tag), \<open>None\<close> is \<open>undefined\<close>.\<close>

record playing_state =
  infoHash :: "string option"
  fileIndex :: "nat option"
  mediaType :: string
  location :: string
  playbackRate :: rat
  volume :: rat
  setVolumeReq :: "rat option"
  jumpToTime :: "rat option"
  subtitles :: subtitles_state

text \<open>Commands handed to the cast module (lib/cast, not among the sources): the model
  records each call in order.\<close>

datatype cast_cmd = CastSetRate rat | CastSetVolume rat

text \<open>\<open>state.window\<close>, \<open>state.dock\<close> and \<open>state.prev\<close> (what \<open>updateElectron\<close> last
  told the main process; its fields start out undefined).\<close>

record window_state =
  title :: string
  isFocused :: bool

record dock_state =
  badge :: nat
  progress :: rat

record prev_state =
  prevTitle :: "string option"
  prevProgress :: "rat option"
  prevBadge :: "nat option"

text \<open>A file of a torrent summary: \<open>fileName\<close>, \<open>relPath\<close> and \<open>fileLength\<close> are its
  \<open>name\<close>, \<open>path\<close> and \<open>length\<close>; \<open>hasAudioInfo\<close> says whether \<open>audioInfo\<close> is set.\<close>

record file_summary =
  fileName :: string
  relPath :: string
  fileLength :: nat
  currentTime :: "rat option"
  duration :: "rat option"
  hasAudioInfo :: bool

text \<open>\<open>torrentSummary.progress\<close> is the object that \<open>torrentProgress\<close> stores, of which
  the model keeps \<open>numPieces\<close> and \<open>numPiecesPresent\<close> of each file, or a plain number.\<close>

datatype progress_info = ProgressNum rat | ProgressObj "(nat \<times> nat) list"

text \<open>A torrent summary; \<open>None\<close> is a field that is still undefined. \<open>summaryHash\<close>,
  \<open>summaryName\<close>, \<open>summaryPath\<close>, \<open>summaryFiles\<close> and \<open>summaryProgress\<close> are \<open>infoHash\<close>,
  \<open>name\<close>, \<open>path\<close>, \<open>files\<close> and \<open>progress\<close>.\<close>

record torrent_summary =
  torrentKey :: "nat option"
  summaryHash :: "string option"
  status :: string
  summaryName :: "string option"
  summaryPath :: "string option"
  summaryFiles :: "file_summary list option"
  summaryProgress :: "progress_info option"
  defaultPlayFileIndex :: "nat option"
  playStatus :: "string option"

text \<open>Messages sent with \<open>ipcRenderer.send\<close>: the channel and its arguments, each a
  string, a number, \<open>undefined\<close> or a torrent summary.\<close>

datatype ipc_arg = S string | N rat | U | T torrent_summary

type_synonym ipc_msg = "string \<times> ipc_arg list"

text \<open>What is pending in the JavaScript runtime for the session that \<open>openPlayer\<close>
  started: the timer, the two one-shot IPC listeners (by channel, \<open>None\<close> when not
  registered or already used), and what their closures hold: the torrent summary, by
  its position in \<open>state.saved.torrents\<close>, and the file index. The closures hold the
  summary object itself; a position names the same object as long as the list is not
  reordered, and nothing in this model reorders it. The model follows one session: a
  second \<open>openPlayer\<close> replaces the record.\<close>

datatype timer_state = Armed | Fired | Cleared

record session =
  sessTorrent :: nat
  sessIndex :: nat
  timer :: timer_state
  awaitingReady :: "string option"
  awaitingServer :: "string option"

text \<open>The renderer's state together with its effect logs: what was sent over IPC, the
  sounds played, the notifications shown and the calls into the cast module, each in
  order. An entry of \<open>state.errors\<close> is kept by its message (its time stamp is the
  wall clock). \<open>telemetryLog\<close> lists the arguments of \<open>telemetry.logPlayAttempt\<close>, and
  \<open>cbCalls\<close> lists the calls of the callback \<open>cb\<close> that \<open>openPlayer\<close> was
  given: \<open>None\<close> for \<open>cb()\<close>, \<open>Some m\<close> for \<open>cb(err)\<close> with the error's message (its
  class name for \<open>UnplayableError\<close>, whose message is in lib/errors).\<close>

record app_state =
  playing :: playing_state
  window :: window_state
  dock :: dock_state
  prev :: prev_state
  errors :: "string list"
  ipcLog :: "ipc_msg list"
  sounds :: "string list"
  notifications :: "(string \<times> string option) list"
  castLog :: "cast_cmd list"
  telemetryLog :: "string list"
  torrents :: "torrent_summary list"
  nextTorrentKey :: nat
  downloadPath :: string
  session :: "session option"
  cbCalls :: "string option list"

section \<open>Transport commands\<close>

text \<open>\<open>isCasting\<close> (main.js 485-489).\<close>

definition isCasting :: "playing_state \<Rightarrow> bool" where
  "isCasting p \<longleftrightarrow>
     location p = ''chromecast'' \<or> location p = ''airplay'' \<or> location p = ''dlna''"

text \<open>The branch chain of \<open>changePlaybackRate\<close> (main.js 408-421), in the order of the
  source: the first branch whose guard holds decides, and the rate stays as it is when
  none does. \<open>direction\<close> is the number the dispatcher passes on.\<close>

definition nextRate :: "int \<Rightarrow> rat \<Rightarrow> rat" where
  "nextRate direction rate =
     (if direction > 0 \<and> rate \<ge> 1/4 \<and> rate < 2 then rate + 1/4
      else if direction < 0 \<and> rate > 1/4 \<and> rate \<le> 2 then rate - 1/4
      else if direction < 0 \<and> rate = 1/4 then -1
      else if direction > 0 \<and> rate = -1 then 1/4
      else if (direction > 0 \<and> rate \<ge> 1 \<and> rate < 16) \<or>
              (direction < 0 \<and> rate > -16 \<and> rate \<le> -1) then rate * 2
      else if (direction < 0 \<and> rate > 1 \<and> rate \<le> 16) \<or>
              (direction > 0 \<and> rate \<ge> -16 \<and> rate < -1) then rate / 2
      else rate)"

text \<open>\<open>changePlaybackRate\<close> (main.js 407-426). \<open>Cast.isCasting\<close> and \<open>Cast.setRate\<close>
  live in lib/cast, which is not among the sources: \<open>castIsCasting\<close> is what the former
  answers and \<open>castSetRate\<close> what the latter returns for the rate it is given. The
  conjunction short-circuits, so \<open>Cast.setRate\<close> is only called while casting.\<close>

definition changePlaybackRate :: "bool \<Rightarrow> (rat \<Rightarrow> bool) \<Rightarrow> int \<Rightarrow> app_state \<Rightarrow> app_state" where
  "changePlaybackRate castIsCasting castSetRate direction s =
     (let rate = nextRate direction (playbackRate (playing s));
          s1 = s\<lparr>playing := (playing s)\<lparr>playbackRate := rate\<rparr>\<rparr>
      in if castIsCasting
         then (let s2 = s1\<lparr>castLog := castLog s1 @ [CastSetRate rate]\<rparr>
               in if \<not> castSetRate rate
                  then s2\<lparr>playing := (playing s2)\<lparr>playbackRate := 1\<rparr>\<rparr>
                  else s2)
         else s1)"

text \<open>\<open>setVolume\<close> (main.js 432-440): \<open>Math.max(0, Math.min(1, volume))\<close>, then either
  the cast device or \<open>state.playing.setVolume\<close>.\<close>

definition setVolume :: "rat \<Rightarrow> app_state \<Rightarrow> app_state" where
  "setVolume volume0 s =
     (let volume1 = max 0 (min 1 volume0)
      in if isCasting (playing s)
         then s\<lparr>castLog := castLog s @ [CastSetVolume volume1]\<rparr>
         else s\<lparr>playing := (playing s)\<lparr>setVolumeReq := Some volume1\<rparr>\<rparr>)"

text \<open>\<open>changeVolume\<close> (main.js 427-430).\<close>

definition changeVolume :: "rat \<Rightarrow> app_state \<Rightarrow> app_state" where
  "changeVolume delta s = setVolume (volume (playing s) + delta) s"

text \<open>A run of rate-adjust commands. Each command carries what the cast module answers
  at that moment: whether it is casting, and whether it accepts the rate.\<close>

record rate_cmd =
  direction :: int
  casting :: bool
  accepts :: "rat \<Rightarrow> bool"

definition runRateCmds :: "rate_cmd list \<Rightarrow> app_state \<Rightarrow> app_state" where
  "runRateCmds cmds s =
     foldl (\<lambda>st c. changePlaybackRate (casting c) (accepts c) (direction c) st) s cmds"

section \<open>Reporting and the window\<close>

text \<open>\<open>updateElectron\<close> (main.js 153-166): each of title, progress and badge is sent to
  the main process when it differs from what was sent last; a badge of 0 goes out as
  the empty string (\<open>state.dock.badge || ''\<close>).\<close>

definition updateElectron :: "app_state \<Rightarrow> app_state" where
  "updateElectron s =
     (let s1 = (if Some (title (window s)) \<noteq> prevTitle (prev s)
                then s\<lparr>prev := (prev s)\<lparr>prevTitle := Some (title (window s))\<rparr>,
                       ipcLog := ipcLog s @ [(''setTitle'', [S (title (window s))])]\<rparr>
                else s);
          s2 = (if Some (progress (dock s1)) \<noteq> prevProgress (prev s1)
                then s1\<lparr>prev := (prev s1)\<lparr>prevProgress := Some (progress (dock s1))\<rparr>,
                        ipcLog := ipcLog s1 @ [(''setProgress'', [N (progress (dock s1))])]\<rparr>
                else s1)
      in if Some (badge (dock s2)) \<noteq> prevBadge (prev s2)
         then s2\<lparr>prev := (prev s2)\<lparr>prevBadge := Some (badge (dock s2))\<rparr>,
                 ipcLog := ipcLog s2 @
                   [(''setBadge'', [if badge (dock s2) = 0 then S [] else N (of_nat (badge (dock s2)))])]\<rparr>
         else s2)"

text \<open>\<open>update\<close> (main.js 145-149). \<open>showOrHidePlayerControls\<close> and the virtual-DOM loop
  write only what the view shows (\<open>hideControls\<close>, the DOM); what is left for this state
  is \<open>updateElectron\<close>.\<close>

definition update :: "app_state \<Rightarrow> app_state" where
  "update s = updateElectron s"

text \<open>\<open>onError\<close> (main.js 1064-1073), given the message of the error.\<close>

definition onError :: "string \<Rightarrow> app_state \<Rightarrow> app_state" where
  "onError message s =
     update (s\<lparr>sounds := sounds s @ [''ERROR''], errors := errors s @ [message]\<rparr>)"

section \<open>Subtitle ingestion\<close>

text \<open>What becomes of \<open>concat(vttStream, callback)\<close> for the file at a path, where
  \<open>vttStream\<close> is \<open>fs.createReadStream(filePath).pipe(srtToVtt())\<close>:
  \<^item> \<open>Contents buf\<close>: the file is read and converted, and the callback gets the contents;
  \<^item> \<open>ConvertError\<close>: the converting stream emits an error, and the callback gets it;
  \<^item> \<open>Silent\<close>: the file does not exist or cannot be read. The read stream emits the
    error; \<open>pipe\<close> does not pass it on and nothing listens for it, so the converting
    stream never ends and the callback is never called. (The runtime raises the error as
    an uncaught exception; \<open>state.errors\<close> is not written.)\<close>

datatype concat_result = Silent | ConvertError | Contents string

text \<open>What the host gives the ingestion: \<open>concat p\<close> is the outcome above for the file at
  path \<open>p\<close>; \<open>detect buf\<close> is the list of language names that
  \<open>LanguageDetect.detect\<close> finds in the contents once the cue lines are taken out, best
  first; \<open>base64 buf\<close> is \<open>buf.toString('base64')\<close>; \<open>getCode\<close> is \<open>iso639.getCode\<close> and
  \<open>navigatorLanguage\<close> is \<open>window.navigator.language\<close>; \<open>pathJoin\<close>, \<open>pathDirname\<close> and
  \<open>extname\<close> are Node's \<open>path.join\<close> (of two strings), \<open>path.dirname\<close> and \<open>path.extname\<close>.
  A file is given by its path.\<close>

record host =
  concat :: "string \<Rightarrow> concat_result"
  detect :: "string \<Rightarrow> string list"
  base64 :: "string \<Rightarrow> string"
  getCode :: "string \<Rightarrow> string"
  navigatorLanguage :: string
  pathJoin :: "string \<Rightarrow> string \<Rightarrow> string"
  pathDirname :: "string \<Rightarrow> string"
  extname :: "string \<Rightarrow> string"

text \<open>\<open>toUpperCase\<close> on one character: the language names are ASCII, and a character
  outside \<open>a\<close>..\<open>z\<close> is its own upper case here.\<close>

definition toUpperCase :: "char \<Rightarrow> char" where
  "toUpperCase c =
     (case map_of (zip ''abcdefghijklmnopqrstuvwxyz'' ''ABCDEFGHIJKLMNOPQRSTUVWXYZ'') c of
        Some u \<Rightarrow> u
      | None \<Rightarrow> c)"

text \<open>\<open>s.slice(0, 1).toUpperCase() + s.slice(1)\<close>.\<close>

definition capitalize :: "string \<Rightarrow> string" where
  "capitalize s = map toUpperCase (take 1 s) @ drop 1 s"

text \<open>What a loading task does with the callback \<open>cb\<close> that \<open>run-parallel\<close> gave it.\<close>

datatype task_outcome = NoCallback | CbErr string | CbOk subtitle_track

text \<open>The track that \<open>loadSubtitle\<close> builds from the contents of a file (main.js
  561-572).\<close>

definition subtitleTrack :: "host \<Rightarrow> string \<Rightarrow> string \<Rightarrow> subtitle_track" where
  "subtitleTrack h file buf =
     (let langs = detect h buf;
          langDetected = capitalize (if langs \<noteq> [] then hd langs else ''subtitle'')
      in \<lparr>buffer = ''data:text/vtt;base64,'' @ base64 h buf,
          language = langDetected, label = langDetected, filePath = file\<rparr>)"

text \<open>\<open>loadSubtitle\<close> (main.js 548-576). When the callback of \<open>concat\<close> gets an error the
  function calls \<open>onError\<close> itself and returns: \<open>cb\<close> is never called. When it gets the
  contents it builds the track and calls \<open>cb(null, track)\<close>. When it is never called,
  nothing happens at all.\<close>

definition loadSubtitle :: "host \<Rightarrow> string \<Rightarrow> app_state \<Rightarrow> task_outcome \<times> app_state" where
  "loadSubtitle h file s =
     (case concat h file of
        Silent \<Rightarrow> (NoCallback, s)
      | ConvertError \<Rightarrow> (NoCallback, onError ''Error parsing subtitles file.'' s)
      | Contents buf \<Rightarrow> (CbOk (subtitleTrack h file buf), s))"

text \<open>The tasks of one call, run in the order of the files. (In the source the reads
  overlap and their callbacks come in any order; each task touches the state only
  through \<open>onError\<close>.)\<close>

fun runTasks :: "host \<Rightarrow> string list \<Rightarrow> app_state \<Rightarrow> task_outcome list \<times> app_state" where
  "runTasks h [] s = ([], s)"
| "runTasks h (file # files) s =
     (let (out, s1) = loadSubtitle h file s;
          (outs, s2) = runTasks h files s1
      in (out # outs, s2))"

text \<open>\<open>run-parallel\<close> on a non-empty task list: its callback runs once, with the first
  error a task reports, or with all results in the order of the tasks once every task
  has called back; it never runs while a task stays silent and none reports an error.\<close>

datatype parallel_result = Never | Failed string | Results "subtitle_track list"

fun parallel :: "task_outcome list \<Rightarrow> parallel_result" where
  "parallel [] = Results []"
| "parallel (NoCallback # outs) =
     (case parallel outs of Failed e \<Rightarrow> Failed e | _ \<Rightarrow> Never)"
| "parallel (CbErr e # outs) = Failed e"
| "parallel (CbOk t # outs) =
     (case parallel outs of Results ts \<Rightarrow> Results (t # ts) | r \<Rightarrow> r)"

text \<open>\<open>isSystemLanguage\<close> (main.js 584-589): \<open>split('-')[0]\<close> is the part before the
  first hyphen.\<close>

definition isSystemLanguage :: "host \<Rightarrow> string \<Rightarrow> bool" where
  "isSystemLanguage h lang \<longleftrightarrow>
     getCode h lang = takeWhile (\<lambda>c. c \<noteq> CHR ''-'') (navigatorLanguage h)"

text \<open>The loop of \<open>addSubtitles\<close> (main.js 527-541) from index \<open>i\<close> on: a track whose
  file path is already stored is skipped; any other is pushed, and selected when
  \<open>autoSelect\<close> holds and it is at index 0 of the call or in the system language.\<close>

fun addTracks :: "host \<Rightarrow> bool \<Rightarrow> nat \<Rightarrow> subtitle_track list \<Rightarrow> subtitles_state \<Rightarrow> subtitles_state" where
  "addTracks h autoSelect i [] sub = sub"
| "addTracks h autoSelect i (track # rest) sub =
     (if list_ex (\<lambda>t. filePath track = filePath t) (tracks sub)
      then addTracks h autoSelect (i + 1) rest sub
      else (let sub1 = sub\<lparr>tracks := tracks sub @ [track]\<rparr>;
                sub2 = (if autoSelect \<and> (i = 0 \<or> isSystemLanguage h (language track))
                        then sub1\<lparr>selectedIndex := int (length (tracks sub1)) - 1\<rparr>
                        else sub1)
            in addTracks h autoSelect (i + 1) rest sub2))"

text \<open>A number as JavaScript prints it when it is appended to a string.\<close>

fun numToString :: "nat \<Rightarrow> string" where
  "numToString n =
     (if n < 10 then [''0123456789'' ! n]
      else numToString (n div 10) @ [''0123456789'' ! (n mod 10)])"

declare numToString.simps [simp del]

text \<open>\<open>relabelSubtitles\<close> (main.js 593-600): \<open>counts\<close> maps a language to the number of
  tracks seen with it; an absent key counts as 0 (\<open>counts[lang] || 0\<close>). (The object
  \<open>counts\<close> also answers for the property names of \<open>Object.prototype\<close>, none of which
  starts with a capital letter; a language here is a name that \<open>loadSubtitle\<close> has
  capitalized.)\<close>

fun relabelTracks :: "(string \<rightharpoonup> nat) \<Rightarrow> subtitle_track list \<Rightarrow> subtitle_track list" where
  "relabelTracks counts [] = []"
| "relabelTracks counts (track # rest) =
     (let lang = language track;
          n = (case counts lang of None \<Rightarrow> 0 | Some c \<Rightarrow> c) + 1
      in track\<lparr>label := (if n > 1 then lang @ '' '' @ numToString n else lang)\<rparr>
         # relabelTracks (counts(lang \<mapsto> n)) rest)"

definition relabelSubtitles :: "subtitles_state \<Rightarrow> subtitles_state" where
  "relabelSubtitles sub = sub\<lparr>tracks := relabelTracks Map.empty (tracks sub)\<rparr>"

text \<open>\<open>addSubtitles\<close> (main.js 517-546; the same loop is in
  \<open>SubtitlesController.addSubtitles\<close>).\<close>

definition addSubtitles :: "host \<Rightarrow> string list \<Rightarrow> bool \<Rightarrow> app_state \<Rightarrow> app_state" where
  "addSubtitles h files autoSelect s =
     (if mediaType (playing s) \<noteq> ''video'' then s
      else if length files = 0 then s
      else (let (outs, s1) = runTasks h files s
            in case parallel outs of
                 Never \<Rightarrow> s1
               | Failed e \<Rightarrow> onError e s1
               | Results ts \<Rightarrow>
                   s1\<lparr>playing := (playing s1)\<lparr>subtitles :=
                        relabelSubtitles (addTracks h autoSelect 0 ts (subtitles (playing s1)))\<rparr>\<rparr>))"

text \<open>A sequence of ingest calls, each with its files and its \<open>autoSelect\<close> flag.\<close>

definition ingestAll :: "host \<Rightarrow> (string list \<times> bool) list \<Rightarrow> app_state \<Rightarrow> app_state" where
  "ingestAll h calls s = foldl (\<lambda>st (files, autoSelect). addSubtitles h files autoSelect st) s calls"

section \<open>Engine events and the playback session\<close>

text \<open>A handler either runs to its end or throws; either way it leaves a state behind.\<close>

datatype 'a completion = Normal 'a | Abrupt string 'a

text \<open>The key that a lookup is given: a torrent key (a number) or an info hash.\<close>

datatype js_key = KeyNum nat | KeyStr string

text \<open>Code of the repository that is not among the sources, taken as parameters:
  \<open>getByKey\<close> is \<open>TorrentSummary.getByKey\<close> and \<open>getPlaying\<close> is
  \<open>state.getPlayingTorrentSummary\<close> (given \<open>state.playing.infoHash\<close>), each answering with
  the position in \<open>state.saved.torrents\<close> of the summary it returns, or \<open>None\<close> for
  \<open>undefined\<close>; \<open>isVideo\<close> and \<open>isAudio\<close> are those of \<open>TorrentPlayer\<close>.\<close>

record libs =
  getByKey :: "torrent_summary list \<Rightarrow> js_key \<Rightarrow> nat option"
  getPlaying :: "torrent_summary list \<Rightarrow> string option \<Rightarrow> nat option"
  isVideo :: "file_summary \<Rightarrow> bool"
  isAudio :: "file_summary \<Rightarrow> bool"

text \<open>\<open>getTorrentSummary\<close> (main.js 513-515). A position outside the list stands for no
  summary.\<close>

definition getTorrentSummary :: "libs \<Rightarrow> app_state \<Rightarrow> js_key \<Rightarrow> nat option" where
  "getTorrentSummary l s key =
     (case getByKey l (torrents s) key of
        None \<Rightarrow> None
      | Some pos \<Rightarrow> if pos < length (torrents s) then Some pos else None)"

text \<open>Writing a field of the summary object at a position.\<close>

definition setSummary :: "nat \<Rightarrow> (torrent_summary \<Rightarrow> torrent_summary) \<Rightarrow> app_state \<Rightarrow> app_state" where
  "setSummary pos f s = s\<lparr>torrents := (torrents s)[pos := f (torrents s ! pos)]\<rparr>"

text \<open>\<open>getTorrentPath\<close> (main.js 949-955); \<open>None\<close> when it throws a \<open>TypeError\<close>: no file
  list, an empty one, or no path.\<close>

definition getTorrentPath :: "host \<Rightarrow> torrent_summary \<Rightarrow> string option" where
  "getTorrentPath h torrentSummary =
     (case summaryFiles torrentSummary of
        None \<Rightarrow> None
      | Some [] \<Rightarrow> None
      | Some (f # fs) \<Rightarrow>
          (case summaryPath torrentSummary of
             None \<Rightarrow> None
           | Some p \<Rightarrow>
               (let itemPath = pathJoin h p (relPath f)
                in Some (if length (f # fs) > 1 then pathDirname h itemPath else itemPath))))"

text \<open>\<open>showDoneNotification\<close> (main.js 1003-1014).\<close>

definition showDoneNotification :: "torrent_summary \<Rightarrow> app_state \<Rightarrow> app_state" where
  "showDoneNotification torrent s =
     s\<lparr>notifications := notifications s @ [(''Download Complete'', summaryName torrent)],
       sounds := sounds s @ [''DONE'']\<rparr>"

text \<open>\<open>torrentDone\<close> (main.js 703-719), given \<open>torrentInfo.bytesReceived\<close>.\<close>

definition torrentDone :: "libs \<Rightarrow> host \<Rightarrow> js_key \<Rightarrow> nat \<Rightarrow> app_state \<Rightarrow> app_state completion" where
  "torrentDone l h key bytesReceived s =
     (case getTorrentSummary l s key of
        None \<Rightarrow> Abrupt ''TypeError'' s
      | Some pos \<Rightarrow>
          (let s1 = setSummary pos (\<lambda>t. t\<lparr>status := ''seeding''\<rparr>) s
           in if bytesReceived > 0
              then (let s2 = (if \<not> isFocused (window s1)
                              then s1\<lparr>dock := (dock s1)\<lparr>badge := badge (dock s1) + 1\<rparr>\<rparr>
                              else s1);
                        s3 = showDoneNotification (torrents s2 ! pos) s2
                    in case getTorrentPath h (torrents s3 ! pos) of
                         None \<Rightarrow> Abrupt ''TypeError'' s3
                       | Some p \<Rightarrow>
                           Normal (update (s3\<lparr>ipcLog := ipcLog s3 @ [(''downloadFinished'', [S p])]\<rparr>)))
              else Normal (update s1)))"

text \<open>\<open>pickFileToPlay\<close> (main.js 785-803). The files are distinct objects, so
  \<open>files.indexOf\<close> of a file that \<open>filter\<close> kept is the position it was taken from: the
  model carries the position along with the file. \<open>reduce\<close> without an initial value
  starts from the first element.\<close>

definition pickFileToPlay :: "libs \<Rightarrow> file_summary list \<Rightarrow> nat option" where
  "pickFileToPlay l fs =
     (let videoFiles = filter (\<lambda>(i, f). isVideo l f) (zip [0..<length fs] fs)
      in if length videoFiles > 0
         then Some (fst (foldl (\<lambda>a b. if fileLength (snd a) > fileLength (snd b) then a else b)
                           (hd videoFiles) (tl videoFiles)))
         else (let audioFiles = filter (\<lambda>(i, f). isAudio l f) (zip [0..<length fs] fs)
               in if length audioFiles > 0 then Some (fst (hd audioFiles)) else None))"

text \<open>An info hash as an IPC argument and inside a channel name
  (\<open>'wt-server-' + torrentSummary.infoHash\<close>).\<close>

definition hashArg :: "string option \<Rightarrow> ipc_arg" where
  "hashArg x = (case x of None \<Rightarrow> U | Some v \<Rightarrow> S v)"

definition hashStr :: "string option \<Rightarrow> string" where
  "hashStr x = (case x of None \<Rightarrow> ''undefined'' | Some v \<Rightarrow> v)"

text \<open>\<open>startTorrentingSummary\<close> (main.js 621-631) on the summary at a position: a missing
  (or zero) key is taken from \<open>state.nextTorrentKey\<close>, a missing (or empty) path from
  the preferences.\<close>

definition startTorrentingSummary :: "nat \<Rightarrow> app_state \<Rightarrow> app_state" where
  "startTorrentingSummary pos s =
     (let s1 = (if torrentKey (torrents s ! pos) = None \<or> torrentKey (torrents s ! pos) = Some 0
                then (setSummary pos (\<lambda>t. t\<lparr>torrentKey := Some (nextTorrentKey s)\<rparr>) s)
                       \<lparr>nextTorrentKey := nextTorrentKey s + 1\<rparr>
                else s);
          s2 = (if summaryPath (torrents s1 ! pos) = None \<or> summaryPath (torrents s1 ! pos) = Some []
                then setSummary pos (\<lambda>t. t\<lparr>summaryPath := Some (downloadPath s1)\<rparr>) s1
                else s1)
      in s2\<lparr>ipcLog := ipcLog s2 @ [(''wt-start-torrenting'', [T (torrents s2 ! pos)])]\<rparr>)"

text \<open>\<open>toLowerCase\<close>, as \<open>toUpperCase\<close> above, and \<open>isSubtitle\<close> (main.js 505-509) on a
  file name.\<close>

definition toLowerCase :: "char \<Rightarrow> char" where
  "toLowerCase c =
     (case map_of (zip ''ABCDEFGHIJKLMNOPQRSTUVWXYZ'' ''abcdefghijklmnopqrstuvwxyz'') c of
        Some u \<Rightarrow> u
      | None \<Rightarrow> c)"

definition isSubtitle :: "host \<Rightarrow> string \<Rightarrow> bool" where
  "isSubtitle h name =
     (let ext = map toLowerCase (extname h name) in ext = ''.srt'' \<or> ext = ''.vtt'')"

text \<open>The \<open>forEach\<close> of \<open>checkForSubtitles\<close> (main.js 607-613) from index \<open>ix\<close> on. Each
  \<open>addSubtitles\<close> call is run where it is started. (In the source its reads finish
  later; the call touches only the subtitle tracks and the error report.)\<close>

fun checkFiles :: "host \<Rightarrow> torrent_summary \<Rightarrow> nat \<Rightarrow> (nat \<times> nat) list \<Rightarrow> app_state
                    \<Rightarrow> app_state completion" where
  "checkFiles h torrentSummary ix [] s = Normal s"
| "checkFiles h torrentSummary ix ((numPieces, numPiecesPresent) # rest) s =
     (if numPieces \<noteq> numPiecesPresent then checkFiles h torrentSummary (ix + 1) rest s
      else (case summaryFiles torrentSummary of
              None \<Rightarrow> Abrupt ''TypeError'' s
            | Some fs \<Rightarrow>
                if ix \<ge> length fs then Abrupt ''TypeError'' s
                else if \<not> isSubtitle h (fileName (fs ! ix))
                then checkFiles h torrentSummary (ix + 1) rest s
                else (case summaryPath torrentSummary of
                        None \<Rightarrow> Abrupt ''TypeError'' s
                      | Some p \<Rightarrow>
                          checkFiles h torrentSummary (ix + 1) rest
                            (addSubtitles h [pathJoin h p (relPath (fs ! ix))] False s))))"

text \<open>\<open>checkForSubtitles\<close> (main.js 602-614). A progress that is a number is falsy when
  it is 0 and has no \<open>files\<close> otherwise.\<close>

definition checkForSubtitles :: "libs \<Rightarrow> host \<Rightarrow> app_state \<Rightarrow> app_state completion" where
  "checkForSubtitles l h s =
     (if mediaType (playing s) \<noteq> ''video'' then Normal s
      else (case getPlaying l (torrents s) (infoHash (playing s)) of
              None \<Rightarrow> Normal s
            | Some pos \<Rightarrow>
                if pos \<ge> length (torrents s) then Normal s
                else (case summaryProgress (torrents s ! pos) of
                        None \<Rightarrow> Normal s
                      | Some (ProgressNum x) \<Rightarrow> if x = 0 then Normal s else Abrupt ''TypeError'' s
                      | Some (ProgressObj fps) \<Rightarrow> checkFiles h (torrents s ! pos) 0 fps s)))"

text \<open>The position to resume from (main.js 862-868): \<open>currentTime\<close> must be truthy, and a
  missing duration makes both comparisons false. With a duration of 0 the fraction is
  plus or minus infinity.\<close>

definition resumeTime :: "file_summary \<Rightarrow> rat option" where
  "resumeTime fileSummary =
     (case currentTime fileSummary of
        None \<Rightarrow> None
      | Some ct \<Rightarrow>
          if ct = 0 then None
          else (case duration fileSummary of
                  None \<Rightarrow> None
                | Some d \<Rightarrow>
                    if (if d = 0 then ct < 0 else ct / d < 9/10) \<and> d - ct > 10
                    then Some ct else None))"

text \<open>\<open>openPlayerFromActiveTorrent\<close> (main.js 851-898) up to the registration of the
  server listener; the summary (by position) and the index are what the caller passes.
  A missing file list throws at \<open>torrentSummary.files[index]\<close>; an index outside the
  list gives an undefined \<open>fileSummary\<close>, which throws once it is read, after
  \<open>infoHash\<close> and \<open>fileIndex\<close> are written.\<close>

definition openPlayerFromActiveTorrent :: "libs \<Rightarrow> host \<Rightarrow> nat \<Rightarrow> nat \<Rightarrow> app_state
                                         \<Rightarrow> app_state completion" where
  "openPlayerFromActiveTorrent l h pos index s =
     (let torrentSummary = torrents s ! pos
      in case summaryFiles torrentSummary of
           None \<Rightarrow> Abrupt ''TypeError'' s
         | Some fs \<Rightarrow>
             (let s1 = s\<lparr>playing := (playing s)\<lparr>infoHash := summaryHash torrentSummary,
                                                fileIndex := Some index\<rparr>\<rparr>
              in if index \<ge> length fs then Abrupt ''TypeError'' s1
                 else (let fileSummary = fs ! index;
                           s2 = s1\<lparr>playing := (playing s1)\<lparr>mediaType :=
                                  (if isVideo l fileSummary then ''video''
                                   else if isAudio l fileSummary then ''audio''
                                   else ''other'')\<rparr>\<rparr>;
                           s3 = (case resumeTime fileSummary of
                                   None \<Rightarrow> s2
                                 | Some ct \<Rightarrow> s2\<lparr>playing := (playing s2)\<lparr>jumpToTime := Some ct\<rparr>\<rparr>);
                           s4 = (if mediaType (playing s3) = ''audio'' \<and> \<not> hasAudioInfo fileSummary
                                 then s3\<lparr>ipcLog := ipcLog s3 @
                                        [(''wt-get-audio-metadata'',
                                          [hashArg (summaryHash torrentSummary), N (of_nat index)])]\<rparr>
                                 else s3)
                       in case checkForSubtitles l h s4 of
                            Abrupt e s5 \<Rightarrow> Abrupt e s5
                          | Normal s5 \<Rightarrow>
                              Normal (s5\<lparr>ipcLog := ipcLog s5 @
                                          [(''wt-start-server'',
                                            [hashArg (summaryHash torrentSummary), N (of_nat index)])],
                                         session := map_option
                                           (\<lambda>ss. ss\<lparr>awaitingServer :=
                                                  Some (''wt-server-'' @ hashStr (summaryHash torrentSummary))\<rparr>)
                                           (session s5)\<rparr>))))"

text \<open>The choice of the file index in \<open>openPlayer\<close> (main.js 823-825): the index given,
  else the cached default, else \<open>pickFileToPlay\<close>.\<close>

datatype resolved = Resolved nat | Unplayable | NoFileList

definition resolveIndex :: "libs \<Rightarrow> torrent_summary \<Rightarrow> nat option \<Rightarrow> resolved" where
  "resolveIndex l torrentSummary index =
     (case index of
        Some i \<Rightarrow> Resolved i
      | None \<Rightarrow>
          (case defaultPlayFileIndex torrentSummary of
             Some i \<Rightarrow> Resolved i
           | None \<Rightarrow>
               (case summaryFiles torrentSummary of
                  None \<Rightarrow> NoFileList
                | Some fs \<Rightarrow>
                    (case pickFileToPlay l fs of Some i \<Rightarrow> Resolved i | None \<Rightarrow> Unplayable))))"

text \<open>\<open>openPlayer\<close> (main.js 819-849). The timer is armed before the branch on the
  status; a paused torrent is started and the rest waits for \<open>wt-ready-<infoHash>\<close>.\<close>

definition openPlayer :: "libs \<Rightarrow> host \<Rightarrow> js_key \<Rightarrow> nat option \<Rightarrow> app_state \<Rightarrow> app_state completion" where
  "openPlayer l h key index0 s =
     (case getTorrentSummary l s key of
        None \<Rightarrow> Abrupt ''TypeError'' s
      | Some pos \<Rightarrow>
          (case resolveIndex l (torrents s ! pos) index0 of
             NoFileList \<Rightarrow> Abrupt ''TypeError'' s
           | Unplayable \<Rightarrow> Normal (s\<lparr>cbCalls := cbCalls s @ [Some ''UnplayableError'']\<rparr>)
           | Resolved index \<Rightarrow>
               (let s1 = (if summaryProgress (torrents s ! pos) \<noteq> Some (ProgressNum 1)
                          then s\<lparr>sounds := sounds s @ [''PLAY'']\<rparr> else s);
                    s2 = update (setSummary pos (\<lambda>t. t\<lparr>playStatus := Some ''requested''\<rparr>) s1);
                    s3 = s2\<lparr>session := Some \<lparr>sessTorrent = pos, sessIndex = index, timer = Armed,
                                              awaitingReady = None, awaitingServer = None\<rparr>\<rparr>
                in if status (torrents s3 ! pos) = ''paused''
                   then (let s4 = startTorrentingSummary pos s3
                         in Normal (s4\<lparr>session := map_option
                              (\<lambda>ss. ss\<lparr>awaitingReady :=
                                     Some (''wt-ready-'' @ hashStr (summaryHash (torrents s4 ! pos)))\<rparr>)
                              (session s4)\<rparr>))
                   else openPlayerFromActiveTorrent l h pos index s3)))"

text \<open>The timer's callback (main.js 833-840).\<close>

definition onTimeout :: "nat \<Rightarrow> app_state \<Rightarrow> app_state" where
  "onTimeout pos s =
     (let s1 = s\<lparr>telemetryLog := telemetryLog s @ [''timeout'']\<rparr>;
          s2 = setSummary pos (\<lambda>t. t\<lparr>playStatus := Some ''timeout''\<rparr>) s1;
          s3 = s2\<lparr>sounds := sounds s2 @ [''ERROR'']\<rparr>;
          s4 = s3\<lparr>cbCalls := cbCalls s3 @ [Some ''Playback timed out. Try again.'']\<rparr>
      in update s4)"

text \<open>\<open>clearTimeout\<close>: a timer that is still armed is cancelled; one that has fired stays
  as it is.\<close>

definition clearTimeout :: "timer_state \<Rightarrow> timer_state" where
  "clearTimeout t = (case t of Armed \<Rightarrow> Cleared | Fired \<Rightarrow> Fired | Cleared \<Rightarrow> Cleared)"

text \<open>The listener for \<open>wt-server-<infoHash>\<close> (main.js 879-897).\<close>

definition onServerReady :: "nat \<Rightarrow> app_state \<Rightarrow> app_state completion" where
  "onServerReady pos s =
     (let s1 = s\<lparr>session := map_option (\<lambda>ss. ss\<lparr>timer := clearTimeout (timer ss)\<rparr>) (session s)\<rparr>;
          timedOut = (playStatus (torrents s1 ! pos) = Some ''timeout'');
          s2 = setSummary pos (\<lambda>t. t\<lparr>playStatus := None\<rparr>) s1
      in if timedOut
         then Normal (update (s2\<lparr>ipcLog := ipcLog s2 @ [(''wt-stop-server'', [])]\<rparr>))
         else (case summaryFiles (torrents s2 ! pos) of
                 None \<Rightarrow> Abrupt ''TypeError'' s2
               | Some fs \<Rightarrow>
                   (case fileIndex (playing s2) of
                      None \<Rightarrow> Abrupt ''TypeError'' s2
                    | Some i \<Rightarrow>
                        if i \<ge> length fs then Abrupt ''TypeError'' s2
                        else (let s3 = update (s2\<lparr>window := (window s2)\<lparr>title := fileName (fs ! i)\<rparr>\<rparr>);
                                  s4 = s3\<lparr>ipcLog := ipcLog s3 @ [(''onPlayerOpen'', [])]\<rparr>
                              in Normal (s4\<lparr>cbCalls := cbCalls s4 @ [None]\<rparr>)))))"

text \<open>What reaches the session from outside: the timer runs out, or a message arrives on
  an IPC channel. A timer fires only while it is armed, and once; a one-shot listener
  is taken off before it runs.\<close>

datatype event = TimerFires | IpcMessage string

definition handleEvent :: "libs \<Rightarrow> host \<Rightarrow> event \<Rightarrow> app_state \<Rightarrow> app_state completion" where
  "handleEvent l h ev s =
     (case session s of
        None \<Rightarrow> Normal s
      | Some ss \<Rightarrow>
          (case ev of
             TimerFires \<Rightarrow>
               if timer ss = Armed
               then Normal (onTimeout (sessTorrent ss) (s\<lparr>session := Some (ss\<lparr>timer := Fired\<rparr>)\<rparr>))
               else Normal s
           | IpcMessage channel \<Rightarrow>
               if awaitingReady ss = Some channel
               then openPlayerFromActiveTorrent l h (sessTorrent ss) (sessIndex ss)
                      (s\<lparr>session := Some (ss\<lparr>awaitingReady := None\<rparr>)\<rparr>)
               else if awaitingServer ss = Some channel
               then onServerReady (sessTorrent ss) (s\<lparr>session := Some (ss\<lparr>awaitingServer := None\<rparr>)\<rparr>)
               else Normal s))"

text \<open>The state that a handler leaves, and a run of events: an exception in one handler
  does not stop the next event.\<close>

definition stateOf :: "'a completion \<Rightarrow> 'a" where
  "stateOf c = (case c of Normal s \<Rightarrow> s | Abrupt e s \<Rightarrow> s)"

definition runEvents :: "libs \<Rightarrow> host \<Rightarrow> event list \<Rightarrow> app_state \<Rightarrow> app_state" where
  "runEvents l h evs s = foldl (\<lambda>st ev. stateOf (handleEvent l h ev st)) s evs"

section \<open>Example inputs\<close>

text \<open>Concrete hosts and states on which the theorems below are instantiated. The
  example host has three subtitle files, one German and two English; any other path
  names no file. The system language is English.\<close>

definition exampleDetect :: "string \<Rightarrow> string list" where
  "exampleDetect buf = (if buf = ''Guten Tag'' then [''german'', ''dutch''] else [''english''])"

definition exampleConcat :: "string \<Rightarrow> concat_result" where
  "exampleConcat p =
     (if p = ''de.srt'' then Contents ''Guten Tag''
      else if p = ''en1.srt'' then Contents ''Good morning''
      else if p = ''en2.srt'' then Contents ''Good evening''
      else Silent)"

definition exampleGetCode :: "string \<Rightarrow> string" where
  "exampleGetCode lang =
     (if lang = ''English'' then ''en'' else if lang = ''German'' then ''de'' else [])"

definition exampleJoin :: "string \<Rightarrow> string \<Rightarrow> string" where
  "exampleJoin a b = a @ ''/'' @ b"

definition exampleDirname :: "string \<Rightarrow> string" where
  "exampleDirname p = rev (drop 1 (dropWhile (\<lambda>c. c \<noteq> CHR ''/'') (rev p)))"

definition exampleExtname :: "string \<Rightarrow> string" where
  "exampleExtname p = rev (takeWhile (\<lambda>c. c \<noteq> CHR ''.'') (rev p)) @ []"

definition exampleHost :: host where
  "exampleHost =
     \<lparr>concat = exampleConcat, detect = exampleDetect, base64 = id,
      getCode = exampleGetCode, navigatorLanguage = ''en-US'',
      pathJoin = exampleJoin, pathDirname = exampleDirname, extname = exampleExtname\<rparr>"

definition examplePlaying :: playing_state where
  "examplePlaying =
     \<lparr>infoHash = None, fileIndex = None, mediaType = ''video'', location = ''local'',
      playbackRate = 1, volume = 1, setVolumeReq = None, jumpToTime = None,
      subtitles = \<lparr>tracks = [], selectedIndex = -1, showMenu = False\<rparr>\<rparr>"

definition exampleFile :: "string \<Rightarrow> nat \<Rightarrow> file_summary" where
  "exampleFile n len =
     \<lparr>fileName = n, relPath = n, fileLength = len, currentTime = None, duration = None,
      hasAudioInfo = False\<rparr>"

definition exampleSummary :: "file_summary list \<Rightarrow> torrent_summary" where
  "exampleSummary fs =
     \<lparr>torrentKey = Some 7, summaryHash = Some ''abc'', status = ''downloading'',
      summaryName = Some ''Example'', summaryPath = Some ''/tmp'', summaryFiles = Some fs,
      summaryProgress = None, defaultPlayFileIndex = None, playStatus = None\<rparr>"

definition exampleState :: "torrent_summary list \<Rightarrow> app_state" where
  "exampleState ts =
     \<lparr>playing = examplePlaying,
      window = \<lparr>title = ''WebTorrent'', isFocused = False\<rparr>,
      dock = \<lparr>badge = 0, progress = -1\<rparr>,
      prev = \<lparr>prevTitle = Some ''WebTorrent'', prevProgress = Some (-1), prevBadge = Some 0\<rparr>,
      errors = [], ipcLog = [], sounds = [], notifications = [], castLog = [],
      telemetryLog = [], torrents = ts, nextTorrentKey = 8, downloadPath = ''/tmp'',
      session = None, cbCalls = []\<rparr>"

definition atRate :: "rat \<Rightarrow> app_state" where
  "atRate r = (exampleState [])\<lparr>playing := examplePlaying\<lparr>playbackRate := r\<rparr>\<rparr>"

definition atLocation :: "string \<Rightarrow> app_state" where
  "atLocation loc = (exampleState [])\<lparr>playing := examplePlaying\<lparr>location := loc\<rparr>\<rparr>"

text \<open>The example state after a call that stored the first English file without
  selecting it.\<close>

definition storedEnglish :: app_state where
  "storedEnglish = addSubtitles exampleHost [''en1.srt''] False (exampleState [])"

definition acceptAll :: "rat \<Rightarrow> bool" where
  "acceptAll r = True"

definition acceptNone :: "rat \<Rightarrow> bool" where
  "acceptNone r = False"

definition decrease :: rate_cmd where
  "decrease = \<lparr>direction = -1, casting = False, accepts = acceptAll\<rparr>"

definition exampleByKey :: "torrent_summary list \<Rightarrow> js_key \<Rightarrow> nat option" where
  "exampleByKey ts key =
     (case key of
        KeyNum k \<Rightarrow> (if list_ex (\<lambda>t. torrentKey t = Some k) ts
                     then Some (length (takeWhile (\<lambda>t. torrentKey t \<noteq> Some k) ts)) else None)
      | KeyStr x \<Rightarrow> (if list_ex (\<lambda>t. summaryHash t = Some x) ts
                     then Some (length (takeWhile (\<lambda>t. summaryHash t \<noteq> Some x) ts)) else None))"

definition examplePlayingSummary :: "torrent_summary list \<Rightarrow> string option \<Rightarrow> nat option" where
  "examplePlayingSummary ts x =
     (if list_ex (\<lambda>t. summaryHash t = x) ts
      then Some (length (takeWhile (\<lambda>t. summaryHash t \<noteq> x) ts)) else None)"

definition exampleLibs :: libs where
  "exampleLibs =
     \<lparr>getByKey = exampleByKey, getPlaying = examplePlayingSummary,
      isVideo = (\<lambda>f. exampleExtname (fileName f) = ''mp4''),
      isAudio = (\<lambda>f. exampleExtname (fileName f) = ''mp3'')\<rparr>"

definition exampleTrack :: "string \<Rightarrow> string \<Rightarrow> subtitle_track" where
  "exampleTrack lang p = \<lparr>buffer = [], language = lang, label = lang, filePath = p\<rparr>"

definition exampleSubtitles :: subtitles_state where
  "exampleSubtitles =
     \<lparr>tracks = [exampleTrack ''English'' ''a.srt'', exampleTrack ''German'' ''b.srt'',
                exampleTrack ''English'' ''c.srt'', exampleTrack ''English'' ''d.srt''],
      selectedIndex = 0, showMenu = False\<rparr>"

text \<open>The track that a file gives when it loads, and whether that track is in the system
  language.\<close>

definition loadedTrack :: "host \<Rightarrow> string \<Rightarrow> subtitle_track option" where
  "loadedTrack h file =
     (case concat h file of Contents buf \<Rightarrow> Some (subtitleTrack h file buf) | _ \<Rightarrow> None)"

definition inSystemLanguage :: "host \<Rightarrow> string \<Rightarrow> bool" where
  "inSystemLanguage h file =
     (case loadedTrack h file of Some t \<Rightarrow> isSystemLanguage h (language t) | None \<Rightarrow> False)"

text \<open>The offered files that are not among the stored paths, each once, in the order in
  which they are first offered (\<open>remdups\<close> keeps the last of equal elements, so the list
  is reversed around it).\<close>

definition offeredFresh :: "string list \<Rightarrow> string list \<Rightarrow> string list" where
  "offeredFresh stored fs = filter (\<lambda>f. f \<notin> set stored) (rev (remdups (rev fs)))"

text \<open>One pass of the loop body for a track that is not skipped.\<close>

definition step_sub :: "host \<Rightarrow> bool \<Rightarrow> nat \<Rightarrow> subtitle_track \<Rightarrow> subtitles_state \<Rightarrow> subtitles_state" where
  "step_sub h a i t sub =
     (if a \<and> (i = 0 \<or> isSystemLanguage h (language t))
      then sub\<lparr>tracks := tracks sub @ [t], selectedIndex := int (length (tracks sub))\<rparr>
      else sub\<lparr>tracks := tracks sub @ [t]\<rparr>)"

text \<open>The messages that were sent on a channel, in order.\<close>

definition sent :: "string \<Rightarrow> app_state \<Rightarrow> ipc_msg list" where
  "sent channel s = filter (\<lambda>m. fst m = channel) (ipcLog s)"

text \<open>The channels that \<open>updateElectron\<close> sends on.\<close>

definition windowChannel :: "string \<Rightarrow> bool" where
  "windowChannel c \<longleftrightarrow> c = ''setTitle'' \<or> c = ''setProgress'' \<or> c = ''setBadge''"

text \<open>A torrent of two files, for the completion event.\<close>

definition doneSummary :: torrent_summary where
  "doneSummary = exampleSummary [exampleFile ''movie.mp4'' 700, exampleFile ''movie.srt'' 1]"

text \<open>The state in which \<open>openPlayerFromActiveTorrent\<close> calls \<open>checkForSubtitles\<close>.\<close>

definition beforeCheck :: "libs \<Rightarrow> nat \<Rightarrow> nat \<Rightarrow> file_summary \<Rightarrow> app_state \<Rightarrow> app_state" where
  "beforeCheck l pos index fileSummary s =
     (let torrentSummary = torrents s ! pos;
          s1 = s\<lparr>playing := (playing s)\<lparr>infoHash := summaryHash torrentSummary,
                                            fileIndex := Some index\<rparr>\<rparr>;
          s2 = s1\<lparr>playing := (playing s1)\<lparr>mediaType :=
                                  (if isVideo l fileSummary then ''video''
                                   else if isAudio l fileSummary then ''audio''
                                   else ''other'')\<rparr>\<rparr>;
          s3 = (case resumeTime fileSummary of
                  None \<Rightarrow> s2
                | Some ct \<Rightarrow> s2\<lparr>playing := (playing s2)\<lparr>jumpToTime := Some ct\<rparr>\<rparr>)
      in if mediaType (playing s3) = ''audio'' \<and> \<not> hasAudioInfo fileSummary
         then s3\<lparr>ipcLog := ipcLog s3 @
                [(''wt-get-audio-metadata'',
                  [hashArg (summaryHash torrentSummary), N (of_nat index)])]\<rparr>
         else s3)"

text \<open>Torrents for the player: one with nothing playable, one with two videos and an
  audio file.\<close>

definition textOnly :: torrent_summary where
  "textOnly = exampleSummary [exampleFile ''readme.txt'' 10]"

definition movies :: torrent_summary where
  "movies = exampleSummary [exampleFile ''a.mp4'' 500, exampleFile ''b.mp4'' 700,
                            exampleFile ''c.mp3'' 100]"

text \<open>The invariant of a session whose timer has fired and whose server-ready message
  has not arrived, relative to the state \<open>s0\<close> in which the timer was still armed.\<close>

definition timedOutPending :: "app_state \<Rightarrow> nat \<Rightarrow> string \<Rightarrow> app_state \<Rightarrow> bool" where
  "timedOutPending s0 pos ch st \<longleftrightarrow>
     (\<exists>ss. session st = Some ss \<and> sessTorrent ss = pos \<and> timer ss = Fired
           \<and> (awaitingReady ss = None \<or> awaitingServer ss = None)
           \<and> (awaitingServer ss = None \<or> awaitingServer ss = Some ch))
     \<and> torrents st = (torrents s0)[pos := (torrents s0 ! pos)\<lparr>playStatus := Some ''timeout''\<rparr>]
     \<and> cbCalls st = cbCalls s0 @ [Some ''Playback timed out. Try again.'']
     \<and> sent ''wt-stop-server'' st = sent ''wt-stop-server'' s0
     \<and> sent ''onPlayerOpen'' st = sent ''onPlayerOpen'' s0"

text \<open>The same torrent while paused, and the state in which \<open>openPlayer\<close> leaves it.\<close>

definition pausedMovies :: torrent_summary where
  "pausedMovies = movies\<lparr>status := ''paused''\<rparr>"

definition pausedSession :: app_state where
  "pausedSession =
     stateOf (openPlayer exampleLibs exampleHost (KeyStr ''abc'') None (exampleState [pausedMovies]))"

section \<open>Properties of the transport commands\<close>

lemma nextRate_nonzero: "rate \<noteq> 0 \<Longrightarrow> nextRate d rate \<noteq> 0"
  by (auto simp: nextRate_def)

lemma changePlaybackRate_rate:
  "playbackRate (playing (changePlaybackRate c a d s)) =
     (if c \<and> \<not> a (nextRate d (playbackRate (playing s))) then 1
      else nextRate d (playbackRate (playing s)))"
  by (simp add: changePlaybackRate_def Let_def)




lemma runRateCmds_nonzero:
  "playbackRate (playing s) \<noteq> 0 \<Longrightarrow> playbackRate (playing (runRateCmds cmds s)) \<noteq> 0"
  unfolding runRateCmds_def
  by (induction cmds arbitrary: s) (simp_all add: changePlaybackRate_rate nextRate_nonzero)

text \<open>C10: from a nonzero rate (the default 1 is one) no run of rate-adjust commands,
  and no single command, reaches 0, whatever the cast module answers: a decrease from
  0.25 gives -1, and a rate the cast target rejects becomes 1.\<close>

theorem playback_rate_never_zero:
  assumes "playbackRate (playing s) \<noteq> 0"
  shows "playbackRate (playing (runRateCmds cmds s)) \<noteq> 0
       \<and> playbackRate (playing (changePlaybackRate castIsCasting castSetRate d s)) \<noteq> 0
       \<and> (d < 0 \<and> playbackRate (playing s) = 1/4 \<and> \<not> castIsCasting \<longrightarrow>
            playbackRate (playing (changePlaybackRate castIsCasting castSetRate d s)) = -1)
       \<and> (castIsCasting \<and> \<not> castSetRate (nextRate d (playbackRate (playing s))) \<longrightarrow>
            playbackRate (playing (changePlaybackRate castIsCasting castSetRate d s)) = 1)"
  using assms
  by (simp add: runRateCmds_nonzero changePlaybackRate_rate nextRate_nonzero) (simp add: nextRate_def)

text \<open>Four decreases from 1 pass 0.75, 0.5 and 0.25 and end at -1.\<close>

theorem playback_rate_never_zero_witness:
  "playbackRate (playing (atRate 1)) \<noteq> 0
   \<and> playbackRate (playing (runRateCmds [decrease, decrease, decrease, decrease] (atRate 1))) = -1
   \<and> playbackRate (playing (runRateCmds [decrease, decrease, decrease, decrease] (atRate 1))) \<noteq> 0
   \<and> playbackRate (playing (changePlaybackRate True acceptNone (-1) (atRate 1))) = 1"
  using playback_rate_never_zero [where s = "atRate 1" and cmds = "[decrease, decrease, decrease, decrease]"
      and castIsCasting = True and castSetRate = acceptNone and d = "-1"]
  by (simp add: atRate_def runRateCmds_def decrease_def changePlaybackRate_rate nextRate_def
      acceptAll_def acceptNone_def)

text \<open>C9: \<open>setVolume\<close> applies max(0, min(1, v)), a value in [0, 1], to
  \<open>state.playing.setVolume\<close> when not casting and to the cast device when casting, and
  \<open>changeVolume\<close> does the same with the current volume plus the delta.\<close>

theorem setVolume_clamps:
  "(isCasting (playing s) \<longrightarrow>
      castLog (setVolume v s) = castLog s @ [CastSetVolume (max 0 (min 1 v))]
      \<and> playing (setVolume v s) = playing s
      \<and> castLog (changeVolume delta s)
          = castLog s @ [CastSetVolume (max 0 (min 1 (volume (playing s) + delta)))])
   \<and> (\<not> isCasting (playing s) \<longrightarrow>
      setVolumeReq (playing (setVolume v s)) = Some (max 0 (min 1 v))
      \<and> castLog (setVolume v s) = castLog s
      \<and> setVolumeReq (playing (changeVolume delta s))
          = Some (max 0 (min 1 (volume (playing s) + delta))))
   \<and> (\<exists>u. 0 \<le> u \<and> u \<le> 1 \<and>
        (if isCasting (playing s) then last (castLog (setVolume v s)) = CastSetVolume u
         else setVolumeReq (playing (setVolume v s)) = Some u))"
  by (auto simp: setVolume_def changeVolume_def Let_def)

text \<open>Volumes above 1 and below 0, locally and while casting.\<close>

theorem setVolume_clamps_witness:
  "setVolumeReq (playing (setVolume (3/2) (atLocation ''local''))) = Some 1
   \<and> setVolumeReq (playing (setVolume (-1/2) (atLocation ''local''))) = Some 0
   \<and> setVolumeReq (playing (changeVolume (1/10) (atLocation ''vlc''))) = Some 1
   \<and> castLog (setVolume (-3) (atLocation ''chromecast'')) = [CastSetVolume 0]
   \<and> castLog (changeVolume (-1/4) (atLocation ''airplay'')) = [CastSetVolume (3/4)]"
  using setVolume_clamps [of "atLocation ''local''" "3/2" "1/10"]
    setVolume_clamps [of "atLocation ''local''" "-1/2" "1/10"]
    setVolume_clamps [of "atLocation ''vlc''" "1" "1/10"]
    setVolume_clamps [of "atLocation ''chromecast''" "-3" "-1/4"]
    setVolume_clamps [of "atLocation ''airplay''" "-3" "-1/4"]
  by (simp add: atLocation_def isCasting_def exampleState_def examplePlaying_def)

section \<open>Properties of the subtitle ingestion\<close>

lemma relabelTracks_length [simp]: "length (relabelTracks c ts) = length ts"
  by (induction ts arbitrary: c) (simp_all add: Let_def)

lemma relabelTracks_language [simp]: "map language (relabelTracks c ts) = map language ts"
  by (induction ts arbitrary: c) (simp_all add: Let_def)

lemma relabelTracks_filePath [simp]: "map filePath (relabelTracks c ts) = map filePath ts"
  by (induction ts arbitrary: c) (simp_all add: Let_def)

lemma relabelTracks_relabelTracks: "relabelTracks c (relabelTracks c' ts) = relabelTracks c ts"
  by (induction ts arbitrary: c c') (simp_all add: Let_def)

lemma relabelTracks_nth:
  "i < length ts \<Longrightarrow>
   relabelTracks c ts ! i =
     (let lang = language (ts ! i);
          n = (case c lang of None \<Rightarrow> 0 | Some k \<Rightarrow> k)
              + length (filter (\<lambda>t. language t = lang) (take (Suc i) ts))
      in (ts ! i)\<lparr>label := (if n > 1 then lang @ '' '' @ numToString n else lang)\<rparr>)"
proof (induction ts arbitrary: c i)
  case Nil
  then show ?case by simp
next
  case (Cons t ts)
  show ?case
  proof (cases i)
    case 0
    then show ?thesis by (simp add: Let_def)
  next
    case (Suc j)
    with Cons.prems have j: "j < length ts" by simp
    show ?thesis
      using Cons.IH [OF j] Suc
      by (simp add: Let_def del: numToString.simps split: option.splits)
  qed
qed

lemma relabelTracks_take:
  "take (length xs) (relabelTracks c (xs @ ys)) = relabelTracks c xs"
  by (induction xs arbitrary: c) (simp_all add: Let_def)

lemma addTracks_Cons_fresh:
  "\<not> list_ex (\<lambda>t'. filePath t = filePath t') (tracks sub) \<Longrightarrow>
   addTracks h a i (t # batch) sub = addTracks h a (Suc i) batch (step_sub h a i t sub)"
  by (auto simp: step_sub_def Let_def)

lemma addTracks_Cons_dup:
  "list_ex (\<lambda>t'. filePath t = filePath t') (tracks sub) \<Longrightarrow>
   addTracks h a i (t # batch) sub = addTracks h a (Suc i) batch sub"
  by simp

lemma tracks_step_sub [simp]: "tracks (step_sub h a i t sub) = tracks sub @ [t]"
  by (simp add: step_sub_def)

lemma addTracks_prefix: "\<exists>new. tracks (addTracks h a i batch sub) = tracks sub @ new"
proof (induction batch arbitrary: i sub)
  case Nil
  then show ?case by simp
next
  case (Cons t batch)
  show ?case
  proof (cases "list_ex (\<lambda>t'. filePath t = filePath t') (tracks sub)")
    case True
    then show ?thesis using Cons.IH [of "Suc i" sub] by simp
  next
    case False
    obtain new where
      "tracks (addTracks h a (Suc i) batch (step_sub h a i t sub)) = tracks (step_sub h a i t sub) @ new"
      using Cons.IH by blast
    then have "tracks (addTracks h a i (t # batch) sub) = tracks sub @ (t # new)"
      using False by (simp add: addTracks_Cons_fresh del: addTracks.simps)
    then show ?thesis by blast
  qed
qed

lemma addTracks_sel_unchanged:
  "0 < i \<Longrightarrow>
   \<forall>j. length (tracks sub) \<le> j \<and> j < length (tracks (addTracks h a i batch sub))
        \<longrightarrow> \<not> isSystemLanguage h (language (tracks (addTracks h a i batch sub) ! j)) \<Longrightarrow>
   selectedIndex (addTracks h a i batch sub) = selectedIndex sub"
proof (induction batch arbitrary: i sub)
  case Nil
  then show ?case by simp
next
  case (Cons t batch)
  show ?case
  proof (cases "list_ex (\<lambda>t'. filePath t = filePath t') (tracks sub)")
    case True
    then show ?thesis using Cons.IH [of "Suc i" sub] Cons.prems by simp
  next
    case False
    let ?sub2 = "step_sub h a i t sub"
    let ?r = "addTracks h a (Suc i) batch ?sub2"
    have eq: "addTracks h a i (t # batch) sub = ?r"
      using False by (rule addTracks_Cons_fresh)
    obtain new where new: "tracks ?r = tracks ?sub2 @ new"
      using addTracks_prefix by blast
    have nomatch: "\<forall>j. length (tracks sub) \<le> j \<and> j < length (tracks ?r)
        \<longrightarrow> \<not> isSystemLanguage h (language (tracks ?r ! j))"
      using Cons.prems(2) unfolding eq .
    have "length (tracks sub) < length (tracks ?r)"
      using new by simp
    then have "\<not> isSystemLanguage h (language (tracks ?r ! length (tracks sub)))"
      using nomatch by blast
    moreover have "tracks ?r ! length (tracks sub) = t"
      using new by (simp add: nth_append)
    ultimately have nt: "\<not> isSystemLanguage h (language t)" by simp
    have "selectedIndex ?r = selectedIndex ?sub2"
      using nomatch by (intro Cons.IH) auto
    also have "\<dots> = selectedIndex sub"
      using nt Cons.prems(1) by (simp add: step_sub_def)
    finally show ?thesis using eq by simp
  qed
qed

lemma addTracks_last_match:
  "\<exists>j. length (tracks sub) \<le> j \<and> j < length (tracks (addTracks h True i batch sub))
        \<and> isSystemLanguage h (language (tracks (addTracks h True i batch sub) ! j)) \<Longrightarrow>
   \<exists>k. selectedIndex (addTracks h True i batch sub) = int k
      \<and> length (tracks sub) \<le> k \<and> k < length (tracks (addTracks h True i batch sub))
      \<and> isSystemLanguage h (language (tracks (addTracks h True i batch sub) ! k))
      \<and> (\<forall>j. k < j \<and> j < length (tracks (addTracks h True i batch sub))
             \<longrightarrow> \<not> isSystemLanguage h (language (tracks (addTracks h True i batch sub) ! j)))"
proof (induction batch arbitrary: i sub)
  case Nil
  then show ?case by auto
next
  case (Cons t batch)
  show ?case
  proof (cases "list_ex (\<lambda>t'. filePath t = filePath t') (tracks sub)")
    case True
    then show ?thesis using Cons.IH [of sub "Suc i"] Cons.prems by simp
  next
    case False
    let ?sub2 = "step_sub h True i t sub"
    let ?r = "addTracks h True (Suc i) batch ?sub2"
    let ?n = "length (tracks sub)"
    have eq: "addTracks h True i (t # batch) sub = ?r"
      using False by (rule addTracks_Cons_fresh)
    obtain new where new: "tracks ?r = tracks ?sub2 @ new"
      using addTracks_prefix by blast
    have n2: "length (tracks ?sub2) = Suc ?n" by simp
    have at_n: "tracks ?r ! ?n = t" using new by (simp add: nth_append)
    have len: "?n < length (tracks ?r)" using new by simp
    show ?thesis
    proof (cases "\<exists>j. Suc ?n \<le> j \<and> j < length (tracks ?r)
                    \<and> isSystemLanguage h (language (tracks ?r ! j))")
      case True
      then have "\<exists>j. length (tracks ?sub2) \<le> j \<and> j < length (tracks ?r)
                    \<and> isSystemLanguage h (language (tracks ?r ! j))"
        unfolding n2 .
      from Cons.IH [OF this] obtain k where
        k: "selectedIndex ?r = int k" "length (tracks ?sub2) \<le> k" "k < length (tracks ?r)"
           "isSystemLanguage h (language (tracks ?r ! k))"
           "\<forall>j. k < j \<and> j < length (tracks ?r)
                \<longrightarrow> \<not> isSystemLanguage h (language (tracks ?r ! j))"
        by blast
      from k(2) have "?n \<le> k" by simp
      with k show ?thesis unfolding eq by blast
    next
      case none: False
      from Cons.prems obtain j where
        j: "?n \<le> j" "j < length (tracks ?r)" "isSystemLanguage h (language (tracks ?r ! j))"
        unfolding eq by blast
      with none have "j = ?n"
        by (metis le_antisym not_less_eq_eq)
      with j at_n have match: "isSystemLanguage h (language t)" by simp
      have "selectedIndex ?r = selectedIndex ?sub2"
        using none by (intro addTracks_sel_unchanged) (auto simp del: tracks_step_sub simp: n2)
      also have "\<dots> = int ?n"
        using match by (simp add: step_sub_def)
      finally have sel: "selectedIndex ?r = int ?n" .
      have later: "\<forall>j. ?n < j \<and> j < length (tracks ?r)
                \<longrightarrow> \<not> isSystemLanguage h (language (tracks ?r ! j))"
        using none by (auto simp: Suc_le_eq)
      show ?thesis
        unfolding eq using sel len match at_n later by auto
    qed
  qed
qed

lemma addTracks_distinct:
  "distinct (map filePath (tracks sub)) \<Longrightarrow>
   distinct (map filePath (tracks (addTracks h a i batch sub)))"
proof (induction batch arbitrary: i sub)
  case Nil
  then show ?case by simp
next
  case (Cons t batch)
  show ?case
  proof (cases "list_ex (\<lambda>t'. filePath t = filePath t') (tracks sub)")
    case True
    then show ?thesis using Cons.IH [OF Cons.prems, of "i + 1"] by simp
  next
    case False
    then have "distinct (map filePath (tracks sub @ [t]))"
      using Cons.prems by (auto simp: list_ex_iff)
    then show ?thesis
      using False Cons.IH by (simp add: Let_def)
  qed
qed

lemma updateElectron_fields [simp]:
  "playing (updateElectron s) = playing s"
  "window (updateElectron s) = window s"
  "dock (updateElectron s) = dock s"
  "errors (updateElectron s) = errors s"
  "sounds (updateElectron s) = sounds s"
  "notifications (updateElectron s) = notifications s"
  "castLog (updateElectron s) = castLog s"
  "telemetryLog (updateElectron s) = telemetryLog s"
  "torrents (updateElectron s) = torrents s"
  "nextTorrentKey (updateElectron s) = nextTorrentKey s"
  "downloadPath (updateElectron s) = downloadPath s"
  "session (updateElectron s) = session s"
  "cbCalls (updateElectron s) = cbCalls s"
  by (simp_all add: updateElectron_def Let_def)

lemma update_fields [simp]:
  "playing (update s) = playing s"
  "window (update s) = window s"
  "dock (update s) = dock s"
  "errors (update s) = errors s"
  "sounds (update s) = sounds s"
  "notifications (update s) = notifications s"
  "castLog (update s) = castLog s"
  "telemetryLog (update s) = telemetryLog s"
  "torrents (update s) = torrents s"
  "nextTorrentKey (update s) = nextTorrentKey s"
  "downloadPath (update s) = downloadPath s"
  "session (update s) = session s"
  "cbCalls (update s) = cbCalls s"
  by (simp_all add: update_def)

lemma onError_fields [simp]:
  "playing (onError m s) = playing s"
  "window (onError m s) = window s"
  "dock (onError m s) = dock s"
  "errors (onError m s) = errors s @ [m]"
  "sounds (onError m s) = sounds s @ [''ERROR'']"
  "notifications (onError m s) = notifications s"
  "castLog (onError m s) = castLog s"
  "telemetryLog (onError m s) = telemetryLog s"
  "torrents (onError m s) = torrents s"
  "session (onError m s) = session s"
  "cbCalls (onError m s) = cbCalls s"
  by (simp_all add: onError_def)

lemma loadSubtitle_fields [simp]:
  "playing (snd (loadSubtitle h f s)) = playing s"
  "torrents (snd (loadSubtitle h f s)) = torrents s"
  "session (snd (loadSubtitle h f s)) = session s"
  "cbCalls (snd (loadSubtitle h f s)) = cbCalls s"
  "notifications (snd (loadSubtitle h f s)) = notifications s"
  "dock (snd (loadSubtitle h f s)) = dock s"
  "window (snd (loadSubtitle h f s)) = window s"
  by (simp_all add: loadSubtitle_def split: concat_result.splits)

lemma runTasks_fields [simp]:
  "playing (snd (runTasks h fs s)) = playing s"
  "torrents (snd (runTasks h fs s)) = torrents s"
  "session (snd (runTasks h fs s)) = session s"
  "cbCalls (snd (runTasks h fs s)) = cbCalls s"
  "notifications (snd (runTasks h fs s)) = notifications s"
  "dock (snd (runTasks h fs s)) = dock s"
  "window (snd (runTasks h fs s)) = window s"
  by (induction fs arbitrary: s; simp add: split_beta Let_def)+

lemma relabelSubtitles_fields [simp]:
  "selectedIndex (relabelSubtitles sub) = selectedIndex sub"
  "showMenu (relabelSubtitles sub) = showMenu sub"
  "tracks (relabelSubtitles sub) = relabelTracks Map.empty (tracks sub)"
  by (simp_all add: relabelSubtitles_def)

lemma addSubtitles_cases:
  "subtitles (playing (addSubtitles h fs a s)) = subtitles (playing s)
   \<or> (\<exists>ts. subtitles (playing (addSubtitles h fs a s))
              = relabelSubtitles (addTracks h a 0 ts (subtitles (playing s))))"
proof -
  obtain outs s1 where rt: "runTasks h fs s = (outs, s1)"
    by (cases "runTasks h fs s")
  then have "playing s1 = playing s"
    using runTasks_fields(1) [of h fs s] by simp
  then show ?thesis
    by (cases "parallel outs") (auto simp: addSubtitles_def rt)
qed

lemma addSubtitles_other_fields [simp]:
  "torrents (addSubtitles h fs a s) = torrents s"
  "session (addSubtitles h fs a s) = session s"
  "cbCalls (addSubtitles h fs a s) = cbCalls s"
  "notifications (addSubtitles h fs a s) = notifications s"
proof -
  obtain outs s1 where rt: "runTasks h fs s = (outs, s1)"
    by (cases "runTasks h fs s")
  then have "torrents s1 = torrents s" "session s1 = session s" "cbCalls s1 = cbCalls s"
     "notifications s1 = notifications s"
    using runTasks_fields [of h fs s] by simp_all
  then show "torrents (addSubtitles h fs a s) = torrents s"
  "session (addSubtitles h fs a s) = session s"
  "cbCalls (addSubtitles h fs a s) = cbCalls s"
  "notifications (addSubtitles h fs a s) = notifications s"
    by (cases "parallel outs"; simp add: addSubtitles_def rt)+
qed

lemma addSubtitles_playing_rest:
  "(playing (addSubtitles h fs a s))\<lparr>subtitles := x\<rparr> = (playing s)\<lparr>subtitles := x\<rparr>"
proof -
  obtain outs s1 where rt: "runTasks h fs s = (outs, s1)"
    by (cases "runTasks h fs s")
  then have "playing s1 = playing s"
    using runTasks_fields(1) [of h fs s] by simp
  then show ?thesis
    by (cases "parallel outs") (auto simp: addSubtitles_def rt)
qed

text \<open>C7: relabelling twice gives what relabelling once gives, and relabelling gives the
  track at position \<open>i\<close> the label "<language> N" when it is the N-th track of its language
  in list order with N at least 2, and "<language>" when it is the first; nothing but
  the label changes.\<close>

theorem relabel_idempotent:
  "relabelSubtitles (relabelSubtitles sub) = relabelSubtitles sub
   \<and> (\<forall>i < length (tracks sub).
        tracks (relabelSubtitles sub) ! i =
          (let lang = language (tracks sub ! i);
               n = length (filter (\<lambda>t. language t = lang) (take (Suc i) (tracks sub)))
           in (tracks sub ! i)\<lparr>label := (if n \<ge> 2 then lang @ '' '' @ numToString n else lang)\<rparr>))"
proof -
  have "relabelSubtitles (relabelSubtitles sub) = relabelSubtitles sub"
    by (simp add: relabelSubtitles_def relabelTracks_relabelTracks)
  moreover have "\<forall>i < length (tracks sub).
        tracks (relabelSubtitles sub) ! i =
          (let lang = language (tracks sub ! i);
               n = length (filter (\<lambda>t. language t = lang) (take (Suc i) (tracks sub)))
           in (tracks sub ! i)\<lparr>label := (if n \<ge> 2 then lang @ '' '' @ numToString n else lang)\<rparr>)"
    by (simp add: relabelTracks_nth Let_def)
  ultimately show ?thesis by blast
qed

text \<open>Three English tracks around a German one.\<close>

theorem relabel_idempotent_witness:
  "map label (tracks (relabelSubtitles exampleSubtitles))
     = [''English'', ''German'', ''English 2'', ''English 3'']
   \<and> relabelSubtitles (relabelSubtitles exampleSubtitles) = relabelSubtitles exampleSubtitles
   \<and> (2::nat) < length (tracks exampleSubtitles)
   \<and> label (tracks (relabelSubtitles exampleSubtitles) ! 2) = ''English 2''"
  using relabel_idempotent [of exampleSubtitles]
  by (simp add: exampleSubtitles_def exampleTrack_def relabelSubtitles_def Let_def numToString.simps)

lemma relabel_fixpoint_tracks:
  "relabelSubtitles sub = sub \<longleftrightarrow> relabelTracks Map.empty (tracks sub) = tracks sub"
  by (metis relabelSubtitles_def relabelSubtitles_fields(3) subtitles_state.surjective
      subtitles_state.update_convs(1))

lemma addTracks_all_dups:
  "\<forall>t \<in> set ts. filePath t \<in> filePath ` set (tracks sub) \<Longrightarrow> addTracks h a i ts sub = sub"
  by (induction ts arbitrary: i) (auto simp: list_ex_iff)

lemma addTracks_no_auto: "selectedIndex (addTracks h False i ts sub) = selectedIndex sub"
  by (induction ts arbitrary: i sub) (simp_all add: Let_def)

lemma addTracks_showMenu: "showMenu (addTracks h a i ts sub) = showMenu sub"
  by (induction ts arbitrary: i sub) (simp_all add: Let_def)

subsection \<open>Loading\<close>

lemma filePath_subtitleTrack [simp]: "filePath (subtitleTrack h f buf) = f"
  by (simp add: subtitleTrack_def Let_def)

lemma loadedTrack_filePath: "loadedTrack h f = Some t \<Longrightarrow> filePath t = f"
  by (auto simp: loadedTrack_def split: concat_result.splits)

lemma loadSubtitle_loaded: "loadedTrack h f = Some t \<Longrightarrow> loadSubtitle h f s = (CbOk t, s)"
  by (auto simp: loadedTrack_def loadSubtitle_def split: concat_result.splits)

lemma loadSubtitle_not_loaded: "loadedTrack h f = None \<Longrightarrow> fst (loadSubtitle h f s) = NoCallback"
  by (auto simp: loadedTrack_def loadSubtitle_def split: concat_result.splits)

lemma runTasks_all_load:
  "\<forall>f \<in> set fs. loadedTrack h f \<noteq> None \<Longrightarrow>
   runTasks h fs s = (map CbOk (map (\<lambda>f. the (loadedTrack h f)) fs), s)"
proof (induction fs)
  case Nil
  then show ?case by simp
next
  case (Cons f fs)
  then obtain t where t: "loadedTrack h f = Some t" by auto
  from Cons have "runTasks h fs s = (map CbOk (map (\<lambda>f. the (loadedTrack h f)) fs), s)" by simp
  then show ?case
    using loadSubtitle_loaded [OF t, of s] t by simp
qed

lemma runTasks_not_loaded:
  "\<exists>f \<in> set fs. loadedTrack h f = None \<Longrightarrow> NoCallback \<in> set (fst (runTasks h fs s))"
proof (induction fs arbitrary: s)
  case Nil
  then show ?case by simp
next
  case (Cons f fs)
  obtain out s1 where l: "loadSubtitle h f s = (out, s1)" by (cases "loadSubtitle h f s")
  obtain outs s2 where r: "runTasks h fs s1 = (outs, s2)" by (cases "runTasks h fs s1")
  show ?case
  proof (cases "loadedTrack h f = None")
    case True
    then have "out = NoCallback" using loadSubtitle_not_loaded [of h f s] l by simp
    then show ?thesis by (simp add: l r)
  next
    case False
    with Cons.prems have "\<exists>f \<in> set fs. loadedTrack h f = None" by auto
    from Cons.IH [OF this, of s1] show ?thesis by (simp add: l r)
  qed
qed

lemma parallel_all_ok [simp]: "parallel (map CbOk ts) = Results ts"
  by (induction ts) simp_all

lemma parallel_no_results: "NoCallback \<in> set outs \<Longrightarrow> parallel outs \<noteq> Results ts"
proof (induction outs arbitrary: ts)
  case Nil
  then show ?case by simp
next
  case (Cons out outs)
  then show ?case
    by (cases out) (auto split: parallel_result.splits)
qed

text \<open>No task ever hands an error to its callback, so the \<open>err\<close> branch of the callback
  of \<open>addSubtitles\<close> is never taken: a file whose conversion fails is reported by its own
  \<open>loadSubtitle\<close>, and a file that cannot be read is not reported at all.\<close>

lemma loadSubtitle_never_fails: "fst (loadSubtitle h f s) \<noteq> CbErr e"
  by (simp add: loadSubtitle_def split: concat_result.splits)

lemma runTasks_never_fails: "CbErr e \<notin> set (fst (runTasks h fs s))"
proof (induction fs arbitrary: s)
  case Nil
  then show ?case by simp
next
  case (Cons f fs)
  obtain out s1 where l: "loadSubtitle h f s = (out, s1)" by (cases "loadSubtitle h f s")
  obtain outs s2 where r: "runTasks h fs s1 = (outs, s2)" by (cases "runTasks h fs s1")
  have "out \<noteq> CbErr e" using loadSubtitle_never_fails [of h f s e] l by simp
  moreover have "CbErr e \<notin> set outs" using Cons [of s1] r by simp
  ultimately show ?case by (simp add: l r)
qed

lemma parallel_Failed: "parallel outs = Failed e \<Longrightarrow> CbErr e \<in> set outs"
proof (induction outs)
  case Nil
  then show ?case by simp
next
  case (Cons out outs)
  then show ?case
    by (cases out) (auto split: parallel_result.splits)
qed

lemma runTasks_errors:
  "errors (snd (runTasks h fs s))
     = errors s @ replicate (length (filter (\<lambda>f. concat h f = ConvertError) fs))
                    ''Error parsing subtitles file.''"
proof (induction fs arbitrary: s)
  case Nil
  then show ?case by simp
next
  case (Cons f fs)
  obtain out s1 where l: "loadSubtitle h f s = (out, s1)" by (cases "loadSubtitle h f s")
  obtain outs s2 where r: "runTasks h fs s1 = (outs, s2)" by (cases "runTasks h fs s1")
  have e1: "errors s1 = errors s @ (if concat h f = ConvertError then [''Error parsing subtitles file.''] else [])"
    using l by (auto simp: loadSubtitle_def split: concat_result.splits)
  have "errors s2 = errors s1 @ replicate (length (filter (\<lambda>f. concat h f = ConvertError) fs))
                                   ''Error parsing subtitles file.''"
    using Cons [of s1] r by simp
  then show ?case by (simp add: l r e1)
qed

lemma runTasks_no_convert_error:
  "\<forall>f \<in> set fs. concat h f \<noteq> ConvertError \<Longrightarrow> snd (runTasks h fs s) = s"
proof (induction fs)
  case Nil
  then show ?case by simp
next
  case (Cons f fs)
  then have "snd (loadSubtitle h f s) = s"
    by (auto simp: loadSubtitle_def split: concat_result.splits)
  with Cons show ?case by (simp add: split_beta)
qed

lemma addSubtitles_reports_each_failure:
  assumes "mediaType (playing s) = ''video''"
  shows "errors (addSubtitles h fs a s)
     = errors s @ replicate (length (filter (\<lambda>f. concat h f = ConvertError) fs))
                    ''Error parsing subtitles file.''"
proof (cases "fs = []")
  case True
  then show ?thesis by (simp add: addSubtitles_def)
next
  case False
  obtain outs s1 where r: "runTasks h fs s = (outs, s1)" by (cases "runTasks h fs s")
  have nf: "parallel outs \<noteq> Failed e" for e
    using runTasks_never_fails [of e h fs s] parallel_Failed [of outs e] r by auto
  have "errors s1 = errors s @ replicate (length (filter (\<lambda>f. concat h f = ConvertError) fs))
                                  ''Error parsing subtitles file.''"
    using runTasks_errors [of h fs s] r by simp
  then show ?thesis
    using assms False nf by (cases "parallel outs") (auto simp: addSubtitles_def r)
qed

lemma addSubtitles_not_loaded:
  assumes "\<exists>f \<in> set fs. loadedTrack h f = None"
  shows "playing (addSubtitles h fs a s) = playing s"
proof -
  obtain outs s1 where r: "runTasks h fs s = (outs, s1)" by (cases "runTasks h fs s")
  have p: "playing s1 = playing s" using runTasks_fields(1) [of h fs s] r by simp
  have "NoCallback \<in> set outs" using runTasks_not_loaded [OF assms, of s] r by simp
  then have "parallel outs \<noteq> Results ts" for ts by (rule parallel_no_results)
  then show ?thesis
    using p by (cases "parallel outs") (auto simp: addSubtitles_def r)
qed

lemma addSubtitles_unreadable:
  assumes "\<exists>f \<in> set fs. concat h f = Silent" "\<forall>f \<in> set fs. concat h f \<noteq> ConvertError"
  shows "addSubtitles h fs a s = s"
proof -
  obtain outs s1 where r: "runTasks h fs s = (outs, s1)" by (cases "runTasks h fs s")
  have s1: "s1 = s" using runTasks_no_convert_error [OF assms(2), of s] r by simp
  from assms(1) obtain f where "f \<in> set fs" "concat h f = Silent" by blast
  then have "f \<in> set fs \<and> loadedTrack h f = None" by (simp add: loadedTrack_def)
  then have "\<exists>f \<in> set fs. loadedTrack h f = None" by blast
  then have "NoCallback \<in> set outs" using runTasks_not_loaded [of fs h s] r by simp
  then have nr: "parallel outs \<noteq> Results ts" for ts by (rule parallel_no_results)
  have nf: "parallel outs \<noteq> Failed e" for e
    using runTasks_never_fails [of e h fs s] parallel_Failed [of outs e] r by auto
  show ?thesis
    using nr nf s1 by (cases "parallel outs") (auto simp: addSubtitles_def r)
qed

lemma addSubtitles_loaded:
  assumes "mediaType (playing s) = ''video''" "fs \<noteq> []" "\<forall>f \<in> set fs. loadedTrack h f \<noteq> None"
  shows "addSubtitles h fs a s =
           s\<lparr>playing := (playing s)\<lparr>subtitles :=
               relabelSubtitles (addTracks h a 0 (map (\<lambda>f. the (loadedTrack h f)) fs)
                                   (subtitles (playing s)))\<rparr>\<rparr>"
proof -
  have "runTasks h fs s = (map CbOk (map (\<lambda>f. the (loadedTrack h f)) fs), s)"
    using assms(3) by (rule runTasks_all_load)
  then show ?thesis
    using assms(1,2) by (simp add: addSubtitles_def del: addTracks.simps map_map)
qed

subsection \<open>Which files a call appends\<close>

lemma remdups_snoc: "remdups (xs @ [f]) = filter (\<lambda>x. x \<noteq> f) (remdups xs) @ [f]"
  by (induction xs) auto

lemma firsts_Cons:
  "rev (remdups (rev (f # fs))) = f # filter (\<lambda>x. x \<noteq> f) (rev (remdups (rev fs)))"
  by (simp add: remdups_snoc rev_filter)

lemma offeredFresh_Nil [simp]: "offeredFresh stored [] = []"
  by (simp add: offeredFresh_def)

lemma offeredFresh_stored:
  "f \<in> set stored \<Longrightarrow> offeredFresh stored (f # fs) = offeredFresh stored fs"
  unfolding offeredFresh_def firsts_Cons
  by (auto intro: filter_cong)

lemma offeredFresh_fresh:
  "f \<notin> set stored \<Longrightarrow> offeredFresh stored (f # fs) = f # offeredFresh (stored @ [f]) fs"
  unfolding offeredFresh_def firsts_Cons
  by (auto intro: filter_cong)

lemma set_offeredFresh: "set (offeredFresh stored fs) = set fs - set stored"
  by (auto simp: offeredFresh_def)

lemma addTracks_appends:
  assumes "\<forall>f \<in> set fs. filePath (g f) = f"
  shows "tracks (addTracks h a i (map g fs) sub)
         = tracks sub @ map g (offeredFresh (map filePath (tracks sub)) fs)"
  using assms
proof (induction fs arbitrary: i sub)
  case Nil
  then show ?case by simp
next
  case (Cons f fs)
  have gf: "filePath (g f) = f" using Cons.prems by simp
  have rest: "\<forall>f \<in> set fs. filePath (g f) = f" using Cons.prems by simp
  show ?case
  proof (cases "f \<in> set (map filePath (tracks sub))")
    case True
    then have dup: "list_ex (\<lambda>t'. filePath (g f) = filePath t') (tracks sub)"
      using gf by (auto simp: list_ex_iff)
    have "addTracks h a i (map g (f # fs)) sub = addTracks h a (Suc i) (map g fs) sub"
      using addTracks_Cons_dup [OF dup] by simp
    then show ?thesis
      using Cons.IH [OF rest, of "Suc i" sub] True by (simp add: offeredFresh_stored)
  next
    case False
    then have fresh: "\<not> list_ex (\<lambda>t'. filePath (g f) = filePath t') (tracks sub)"
      using gf by (auto simp: list_ex_iff)
    have eq: "addTracks h a i (map g (f # fs)) sub
              = addTracks h a (Suc i) (map g fs) (step_sub h a i (g f) sub)"
      using addTracks_Cons_fresh [OF fresh] by simp
    have "map filePath (tracks (step_sub h a i (g f) sub)) = map filePath (tracks sub) @ [f]"
      using gf by simp
    then show ?thesis
      using Cons.IH [OF rest, of "Suc i" "step_sub h a i (g f) sub"] False
      unfolding eq by (simp add: offeredFresh_fresh)
  qed
qed

subsection \<open>The invariant and the stored tracks\<close>

lemma addSubtitles_distinct:
  assumes "distinct (map filePath (tracks (subtitles (playing s))))"
  shows "distinct (map filePath (tracks (subtitles (playing (addSubtitles h fs a s)))))"
  using addSubtitles_cases [of h fs a s] assms
  by (auto simp: addTracks_distinct)

lemma ingestAll_distinct:
  "distinct (map filePath (tracks (subtitles (playing s)))) \<Longrightarrow>
   distinct (map filePath (tracks (subtitles (playing (ingestAll h calls s)))))"
  unfolding ingestAll_def
  by (induction calls arbitrary: s) (auto simp: addSubtitles_distinct)

lemma addSubtitles_keeps_stored:
  assumes "relabelSubtitles (subtitles (playing s)) = subtitles (playing s)"
  shows "take (length (tracks (subtitles (playing s))))
           (tracks (subtitles (playing (addSubtitles h fs a s))))
         = tracks (subtitles (playing s))"
proof -
  let ?sub = "subtitles (playing s)"
  from addSubtitles_cases [of h fs a s] show ?thesis
  proof
    assume "subtitles (playing (addSubtitles h fs a s)) = ?sub"
    then show ?thesis by simp
  next
    assume "\<exists>ts. subtitles (playing (addSubtitles h fs a s))
              = relabelSubtitles (addTracks h a 0 ts ?sub)"
    then obtain ts where ts: "subtitles (playing (addSubtitles h fs a s))
              = relabelSubtitles (addTracks h a 0 ts ?sub)" by blast
    obtain new where new: "tracks (addTracks h a 0 ts ?sub) = tracks ?sub @ new"
      using addTracks_prefix by blast
    have "take (length (tracks ?sub)) (relabelTracks Map.empty (tracks ?sub @ new))
          = relabelTracks Map.empty (tracks ?sub)"
      by (rule relabelTracks_take)
    also have "\<dots> = tracks ?sub"
      using assms by (simp add: relabel_fixpoint_tracks)
    finally show ?thesis by (simp add: ts new)
  qed
qed

lemma addSubtitles_relabelled:
  assumes "relabelSubtitles (subtitles (playing s)) = subtitles (playing s)"
  shows "relabelSubtitles (subtitles (playing (addSubtitles h fs a s)))
         = subtitles (playing (addSubtitles h fs a s))"
  using addSubtitles_cases [of h fs a s] assms
  by (auto simp: relabelSubtitles_def relabelTracks_relabelTracks)


lemma addSubtitles_all_dups:
  assumes "relabelSubtitles (subtitles (playing s)) = subtitles (playing s)"
    and "\<forall>f \<in> set fs. loadedTrack h f \<noteq> None
            \<and> f \<in> filePath ` set (tracks (subtitles (playing s)))"
  shows "addSubtitles h fs a s = s"
proof -
  let ?ts = "map (\<lambda>f. the (loadedTrack h f)) fs"
  have rt: "runTasks h fs s = (map CbOk ?ts, s)"
    using assms(2) by (intro runTasks_all_load) blast
  have "\<forall>t \<in> set ?ts. filePath t \<in> filePath ` set (tracks (subtitles (playing s)))"
    using assms(2) loadedTrack_filePath by fastforce
  then have "addTracks h a 0 ?ts (subtitles (playing s)) = subtitles (playing s)"
    by (rule addTracks_all_dups)
  then show ?thesis
    using assms(1) by (simp add: addSubtitles_def rt del: map_map)
qed

subsection \<open>The selection after a call\<close>

lemma addTracks_first_offered:
  assumes fresh: "\<not> list_ex (\<lambda>t'. filePath t = filePath t') (tracks sub)"
    and nomatch: "\<forall>j. length (tracks sub) \<le> j \<and> j < length (tracks (addTracks h True 0 (t # ts) sub))
        \<longrightarrow> \<not> isSystemLanguage h (language (tracks (addTracks h True 0 (t # ts) sub) ! j))"
  shows "selectedIndex (addTracks h True 0 (t # ts) sub) = int (length (tracks sub))"
proof -
  let ?sub2 = "step_sub h True 0 t sub"
  let ?r = "addTracks h True (Suc 0) ts ?sub2"
  have eq: "addTracks h True 0 (t # ts) sub = ?r"
    using fresh by (rule addTracks_Cons_fresh)
  have "selectedIndex ?r = selectedIndex ?sub2"
    using nomatch unfolding eq by (intro addTracks_sel_unchanged) auto
  also have "\<dots> = int (length (tracks sub))"
    by (simp add: step_sub_def)
  finally show ?thesis unfolding eq .
qed


lemma addTracks_selection:
  fixes g :: "string \<Rightarrow> subtitle_track" and h :: host and fs :: "string list"
    and sub :: subtitles_state
  defines "P \<equiv> (\<lambda>f. isSystemLanguage h (language (g f)))"
  assumes g: "\<forall>f \<in> set fs. filePath (g f) = f"
  defines "fresh \<equiv> offeredFresh (map filePath (tracks sub)) fs"
    and "r \<equiv> addTracks h True 0 (map g fs) sub"
  shows "(\<exists>f \<in> set fresh. P f) \<Longrightarrow>
           \<exists>k < length fresh. selectedIndex r = int (length (tracks sub) + k) \<and> P (fresh ! k)
              \<and> (\<forall>j. k < j \<and> j < length fresh \<longrightarrow> \<not> P (fresh ! j))"
    and "(\<forall>f \<in> set fresh. \<not> P f) \<Longrightarrow> fs \<noteq> [] \<Longrightarrow> hd fs \<notin> set (map filePath (tracks sub)) \<Longrightarrow>
           selectedIndex r = int (length (tracks sub))"
    and "(\<forall>f \<in> set fresh. \<not> P f) \<Longrightarrow> fs = [] \<or> hd fs \<in> set (map filePath (tracks sub)) \<Longrightarrow>
           selectedIndex r = selectedIndex sub"
proof -
  let ?n = "length (tracks sub)"
  have tr: "tracks r = tracks sub @ map g fresh"
    unfolding r_def fresh_def using g by (rule addTracks_appends)
  have len: "length (tracks r) = ?n + length fresh" by (simp add: tr)
  have at: "tracks r ! (?n + k) = g (fresh ! k)" if "k < length fresh" for k
    using that by (simp add: tr nth_append)
  have nomatch: "\<forall>j. ?n \<le> j \<and> j < length (tracks r)
                  \<longrightarrow> \<not> isSystemLanguage h (language (tracks r ! j))"
    if none: "\<forall>f \<in> set fresh. \<not> P f"
  proof (intro allI impI)
    fix j assume j: "?n \<le> j \<and> j < length (tracks r)"
    then have k: "j - ?n < length fresh" using len by linarith
    then have "tracks r ! j = g (fresh ! (j - ?n))" using at [OF k] j by simp
    moreover have "\<not> P (fresh ! (j - ?n))" using none k by simp
    ultimately show "\<not> isSystemLanguage h (language (tracks r ! j))" by (simp add: P_def)
  qed
  show "\<exists>k < length fresh. selectedIndex r = int (?n + k) \<and> P (fresh ! k)
              \<and> (\<forall>j. k < j \<and> j < length fresh \<longrightarrow> \<not> P (fresh ! j))"
    if "\<exists>f \<in> set fresh. P f"
  proof -
    from that obtain m where m: "m < length fresh" "P (fresh ! m)"
      by (auto simp: in_set_conv_nth)
    have "?n \<le> ?n + m \<and> ?n + m < length (tracks r)
          \<and> isSystemLanguage h (language (tracks r ! (?n + m)))"
      using m at [OF m(1)] len by (simp add: P_def)
    then have "\<exists>j. ?n \<le> j \<and> j < length (tracks (addTracks h True 0 (map g fs) sub))
          \<and> isSystemLanguage h (language (tracks (addTracks h True 0 (map g fs) sub) ! j))"
      unfolding r_def by blast
    from addTracks_last_match [OF this] obtain k' where
      k': "selectedIndex r = int k'" "?n \<le> k'" "k' < length (tracks r)"
          "isSystemLanguage h (language (tracks r ! k'))"
          "\<forall>j. k' < j \<and> j < length (tracks r)
               \<longrightarrow> \<not> isSystemLanguage h (language (tracks r ! j))"
      unfolding r_def by blast
    define k where "k = k' - ?n"
    have kk: "k' = ?n + k" "k < length fresh" using k' len by (simp_all add: k_def)
    have "P (fresh ! k)" using k'(4) at [OF kk(2)] kk(1) by (simp add: P_def)
    moreover have "\<forall>j. k < j \<and> j < length fresh \<longrightarrow> \<not> P (fresh ! j)"
    proof (intro allI impI)
      fix j assume j: "k < j \<and> j < length fresh"
      then have "k' < ?n + j \<and> ?n + j < length (tracks r)" using kk len by simp
      with k'(5) have "\<not> isSystemLanguage h (language (tracks r ! (?n + j)))" by blast
      then show "\<not> P (fresh ! j)" using at [of j] j by (simp add: P_def)
    qed
    ultimately show ?thesis using k'(1) kk by blast
  qed
  show "selectedIndex r = int ?n"
    if none: "\<forall>f \<in> set fresh. \<not> P f" and ne: "fs \<noteq> []"
      and hd: "hd fs \<notin> set (map filePath (tracks sub))"
  proof -
    from ne obtain f fs' where fs: "fs = f # fs'" by (cases fs) auto
    have gf: "filePath (g f) = f" using g fs by simp
    have fresh: "\<not> list_ex (\<lambda>t'. filePath (g f) = filePath t') (tracks sub)"
      using hd fs gf by (auto simp: list_ex_iff)
    have "selectedIndex (addTracks h True 0 (g f # map g fs') sub) = int ?n"
      using fresh nomatch [OF none] unfolding r_def fs
      by (intro addTracks_first_offered) simp_all
    then show ?thesis by (simp add: r_def fs)
  qed
  show "selectedIndex r = selectedIndex sub"
    if none: "\<forall>f \<in> set fresh. \<not> P f"
      and hd: "fs = [] \<or> hd fs \<in> set (map filePath (tracks sub))"
  proof (cases fs)
    case Nil
    then show ?thesis by (simp add: r_def)
  next
    case (Cons f fs')
    have gf: "filePath (g f) = f" using g Cons by simp
    have dup: "list_ex (\<lambda>t'. filePath (g f) = filePath t') (tracks sub)"
      using hd Cons gf by (auto simp: list_ex_iff)
    have eq: "r = addTracks h True (Suc 0) (map g fs') sub"
      unfolding r_def Cons using addTracks_Cons_dup [OF dup] by simp
    have "selectedIndex (addTracks h True (Suc 0) (map g fs') sub) = selectedIndex sub"
      using nomatch [OF none] unfolding eq
      by (intro addTracks_sel_unchanged) simp_all
    then show ?thesis by (simp add: eq)
  qed
qed

text \<open>What a call that reaches the loop leaves behind: the tracks, the selection and the
  rest of the state.\<close>

lemma addSubtitles_result:
  fixes s :: app_state and h :: host and fs :: "string list" and a :: bool
  defines "old \<equiv> subtitles (playing s)"
    and "new \<equiv> subtitles (playing (addSubtitles h fs a s))"
  defines "fresh \<equiv> offeredFresh (map filePath (tracks old)) fs"
  assumes video: "mediaType (playing s) = ''video''" and ne: "fs \<noteq> []"
    and load: "\<forall>f \<in> set fs. loadedTrack h f \<noteq> None"
  shows "tracks new = relabelTracks Map.empty
                        (tracks old @ map (\<lambda>f. the (loadedTrack h f)) fresh)"
    and "addSubtitles h fs a s = s\<lparr>playing := (playing s)\<lparr>subtitles := new\<rparr>\<rparr>"
    and "showMenu new = showMenu old"
    and "\<not> a \<Longrightarrow> selectedIndex new = selectedIndex old"
    and "a \<Longrightarrow> \<exists>f \<in> set fresh. inSystemLanguage h f \<Longrightarrow>
           \<exists>k < length fresh. selectedIndex new = int (length (tracks old) + k)
              \<and> inSystemLanguage h (fresh ! k)
              \<and> (\<forall>j. k < j \<and> j < length fresh \<longrightarrow> \<not> inSystemLanguage h (fresh ! j))"
    and "a \<Longrightarrow> \<forall>f \<in> set fresh. \<not> inSystemLanguage h f \<Longrightarrow>
           hd fs \<notin> set (map filePath (tracks old)) \<Longrightarrow>
           selectedIndex new = int (length (tracks old))"
    and "a \<Longrightarrow> \<forall>f \<in> set fresh. \<not> inSystemLanguage h f \<Longrightarrow>
           hd fs \<in> set (map filePath (tracks old)) \<Longrightarrow>
           selectedIndex new = selectedIndex old"
proof -
  define g where "g = (\<lambda>f. the (loadedTrack h f))"
  have g: "\<forall>f \<in> set fs. filePath (g f) = f"
    using load loadedTrack_filePath by (fastforce simp: g_def)
  have sys: "inSystemLanguage h f \<longleftrightarrow> isSystemLanguage h (language (g f))" if "f \<in> set fs" for f
    using load that by (auto simp: inSystemLanguage_def g_def)
  have sub: "set fresh \<subseteq> set fs" by (auto simp: fresh_def set_offeredFresh)
  have eq: "addSubtitles h fs a s =
           s\<lparr>playing := (playing s)\<lparr>subtitles := relabelSubtitles (addTracks h a 0 (map g fs) old)\<rparr>\<rparr>"
    unfolding g_def old_def using video ne load by (rule addSubtitles_loaded)
  have new: "new = relabelSubtitles (addTracks h a 0 (map g fs) old)"
    unfolding new_def eq by simp
  show "tracks new = relabelTracks Map.empty (tracks old @ map (\<lambda>f. the (loadedTrack h f)) fresh)"
    unfolding new fresh_def using addTracks_appends [OF g, of h a 0 old] by (simp add: g_def)
  show "addSubtitles h fs a s = s\<lparr>playing := (playing s)\<lparr>subtitles := new\<rparr>\<rparr>"
    unfolding new by (rule eq)
  show "showMenu new = showMenu old"
    by (simp add: new addTracks_showMenu del: addTracks.simps)
  show "selectedIndex new = selectedIndex old" if "\<not> a"
    using that by (simp add: new addTracks_no_auto del: addTracks.simps)
  have sel: "selectedIndex new = selectedIndex (addTracks h True 0 (map g fs) old)" if a
    using that by (simp add: new del: addTracks.simps)
  show "\<exists>k < length fresh. selectedIndex new = int (length (tracks old) + k)
              \<and> inSystemLanguage h (fresh ! k)
              \<and> (\<forall>j. k < j \<and> j < length fresh \<longrightarrow> \<not> inSystemLanguage h (fresh ! j))"
    if a "\<exists>f \<in> set fresh. inSystemLanguage h f"
  proof -
    from that(2) sub have "\<exists>f \<in> set (offeredFresh (map filePath (tracks old)) fs).
        isSystemLanguage h (language (g f))"
      unfolding fresh_def using sys by blast
    from addTracks_selection(1) [OF g this] obtain k where
      k: "k < length fresh" "selectedIndex (addTracks h True 0 (map g fs) old)
            = int (length (tracks old) + k)"
         "isSystemLanguage h (language (g (fresh ! k)))"
         "\<forall>j. k < j \<and> j < length fresh \<longrightarrow> \<not> isSystemLanguage h (language (g (fresh ! j)))"
      unfolding fresh_def by blast
    have mem: "fresh ! j \<in> set fs" if "j < length fresh" for j
      using sub that by (meson nth_mem subsetD)
    have "inSystemLanguage h (fresh ! k)" using k(1,3) sys mem by blast
    moreover have "\<forall>j. k < j \<and> j < length fresh \<longrightarrow> \<not> inSystemLanguage h (fresh ! j)"
      using k(4) sys mem by blast
    ultimately show ?thesis using k(1,2) sel [OF that(1)] by auto
  qed
  have none: "\<forall>f \<in> set (offeredFresh (map filePath (tracks old)) fs).
        \<not> isSystemLanguage h (language (g f))"
    if "\<forall>f \<in> set fresh. \<not> inSystemLanguage h f"
    using that sub sys unfolding fresh_def by blast
  show "selectedIndex new = int (length (tracks old))"
    if a "\<forall>f \<in> set fresh. \<not> inSystemLanguage h f" "hd fs \<notin> set (map filePath (tracks old))"
    using addTracks_selection(2) [OF g none [OF that(2)] ne that(3)] sel [OF that(1)] by simp
  show "selectedIndex new = selectedIndex old"
    if a "\<forall>f \<in> set fresh. \<not> inSystemLanguage h f" "hd fs \<in> set (map filePath (tracks old))"
    using addTracks_selection(3) [OF g none [OF that(2)]] that(3) sel [OF that(1)] by simp
qed

subsection \<open>What a call stores and selects\<close>

lemma addSubtitles_appended:
  fixes s :: app_state and h :: host and fs :: "string list" and a :: bool
  defines "old \<equiv> subtitles (playing s)"
    and "new \<equiv> subtitles (playing (addSubtitles h fs a s))"
  defines "fresh \<equiv> offeredFresh (map filePath (tracks old)) fs"
  assumes video: "mediaType (playing s) = ''video''" and ne: "fs \<noteq> []"
    and load: "\<forall>f \<in> set fs. loadedTrack h f \<noteq> None"
  shows "map filePath (tracks new) = map filePath (tracks old) @ fresh"
    and "\<exists>appended. map Some appended = map (loadedTrack h) fresh
           \<and> tracks new = relabelTracks Map.empty (tracks old @ appended)"
    and "k < length fresh \<Longrightarrow> filePath (tracks new ! (length (tracks old) + k)) = fresh ! k"
    and "k < length fresh \<Longrightarrow>
           isSystemLanguage h (language (tracks new ! (length (tracks old) + k)))
           \<longleftrightarrow> inSystemLanguage h (fresh ! k)"
proof -
  define g where "g = (\<lambda>f. the (loadedTrack h f))"
  have sub: "set fresh \<subseteq> set fs" by (auto simp: fresh_def set_offeredFresh)
  have some: "loadedTrack h f = Some (g f)" if "f \<in> set fresh" for f
    using load sub that by (auto simp: g_def)
  have gp: "filePath (g f) = f" if "f \<in> set fresh" for f
    using some [OF that] by (rule loadedTrack_filePath)
  have tr: "tracks new = relabelTracks Map.empty (tracks old @ map g fresh)"
    unfolding new_def old_def fresh_def g_def
    using video ne load by (rule addSubtitles_result(1))
  have paths: "map filePath (tracks new) = map filePath (tracks old) @ map (\<lambda>f. filePath (g f)) fresh"
    by (simp add: tr comp_def)
  also have "map (\<lambda>f. filePath (g f)) fresh = fresh"
    using gp by (simp add: map_idI)
  finally show p: "map filePath (tracks new) = map filePath (tracks old) @ fresh" .
  have "map Some (map g fresh) = map (loadedTrack h) fresh"
    using some by simp
  with tr show "\<exists>appended. map Some appended = map (loadedTrack h) fresh
           \<and> tracks new = relabelTracks Map.empty (tracks old @ appended)"
    by blast
  have len: "length (tracks new) = length (tracks old) + length fresh"
    by (simp add: tr)
  show "filePath (tracks new ! (length (tracks old) + k)) = fresh ! k" if k: "k < length fresh"
  proof -
    have "filePath (tracks new ! (length (tracks old) + k))
          = map filePath (tracks new) ! (length (tracks old) + k)"
      using k len by simp
    also have "\<dots> = fresh ! k" unfolding p by (simp add: nth_append)
    finally show ?thesis .
  qed
  show "isSystemLanguage h (language (tracks new ! (length (tracks old) + k)))
           \<longleftrightarrow> inSystemLanguage h (fresh ! k)" if k: "k < length fresh"
  proof -
    have "language (tracks new ! (length (tracks old) + k))
          = map language (tracks new) ! (length (tracks old) + k)"
      using k len by simp
    also have "\<dots> = language (g (fresh ! k))"
      using k by (simp add: tr nth_append)
    finally have "language (tracks new ! (length (tracks old) + k)) = language (g (fresh ! k))" .
    moreover have "loadedTrack h (fresh ! k) = Some (g (fresh ! k))"
      using some k by simp
    ultimately show ?thesis by (simp add: inSystemLanguage_def)
  qed
qed

text \<open>C4: when the stored tracks have distinct file paths (as the empty list of a new
  session has), they still have after any sequence of ingest calls and after any single
  call. A call leaves the stored tracks where they are, consistently labelled if they
  were, and a call whose files are all stored already leaves the whole state as it is.
  A call that reaches the loop (a video plays, every file loads) appends the track of
  every offered file that is not stored, once and in the order of the offers, and
  nothing else: a skipped file ends nothing and adds nothing. The selection afterwards
  is the old one without \<open>autoSelect\<close>; with it, it is the last appended track in the
  system language, else the track of the first offered file when that file was
  appended, else the old one, so a skipped file never moves it. The menu flag and the
  rest of the state stay. A call that does not reach the loop leaves the playing state
  as it is.\<close>

theorem no_duplicate_file_paths:
  fixes s :: app_state and h :: host and fs :: "string list" and a :: bool
  defines "old \<equiv> subtitles (playing s)"
    and "new \<equiv> subtitles (playing (addSubtitles h fs a s))"
  defines "stored \<equiv> map filePath (tracks old)"
  defines "fresh \<equiv> offeredFresh stored fs"
  assumes "distinct stored"
  shows "distinct (map filePath (tracks (subtitles (playing (ingestAll h calls s)))))
    \<and> distinct (map filePath (tracks new))
    \<and> (relabelSubtitles old = old \<longrightarrow>
         take (length (tracks old)) (tracks new) = tracks old
         \<and> relabelSubtitles new = new)
    \<and> (relabelSubtitles old = old
         \<and> (\<forall>f \<in> set fs. loadedTrack h f \<noteq> None \<and> f \<in> set stored) \<longrightarrow>
         addSubtitles h fs a s = s)
    \<and> (mediaType (playing s) = ''video'' \<and> fs \<noteq> [] \<and> (\<forall>f \<in> set fs. loadedTrack h f \<noteq> None) \<longrightarrow>
         map filePath (tracks new) = stored @ fresh
         \<and> (\<exists>appended. map Some appended = map (loadedTrack h) fresh
               \<and> tracks new = relabelTracks Map.empty (tracks old @ appended))
         \<and> addSubtitles h fs a s = s\<lparr>playing := (playing s)\<lparr>subtitles := new\<rparr>\<rparr>
         \<and> showMenu new = showMenu old
         \<and> (\<not> a \<longrightarrow> selectedIndex new = selectedIndex old)
         \<and> (a \<and> (\<exists>f \<in> set fresh. inSystemLanguage h f) \<longrightarrow>
              (\<exists>k < length fresh. selectedIndex new = int (length stored + k)
                 \<and> inSystemLanguage h (fresh ! k)
                 \<and> (\<forall>j. k < j \<and> j < length fresh \<longrightarrow> \<not> inSystemLanguage h (fresh ! j))))
         \<and> (a \<and> (\<forall>f \<in> set fresh. \<not> inSystemLanguage h f) \<and> hd fs \<notin> set stored \<longrightarrow>
              selectedIndex new = int (length stored))
         \<and> (a \<and> (\<forall>f \<in> set fresh. \<not> inSystemLanguage h f) \<and> hd fs \<in> set stored \<longrightarrow>
              selectedIndex new = selectedIndex old))
    \<and> (mediaType (playing s) \<noteq> ''video'' \<or> fs = [] \<longrightarrow> addSubtitles h fs a s = s)
    \<and> ((\<exists>f \<in> set fs. loadedTrack h f = None) \<longrightarrow>
         playing (addSubtitles h fs a s) = playing s)"
proof -
  have d: "distinct (map filePath (tracks (subtitles (playing s))))"
    using assms by (simp add: stored_def old_def)
  have p1: "distinct (map filePath (tracks (subtitles (playing (ingestAll h calls s)))))"
    using d by (rule ingestAll_distinct)
  have p2: "distinct (map filePath (tracks new))"
    unfolding new_def using d by (rule addSubtitles_distinct)
  have p3: "relabelSubtitles old = old \<longrightarrow>
         take (length (tracks old)) (tracks new) = tracks old \<and> relabelSubtitles new = new"
    unfolding new_def old_def
    by (simp add: addSubtitles_keeps_stored addSubtitles_relabelled)
  have p4: "relabelSubtitles old = old
         \<and> (\<forall>f \<in> set fs. loadedTrack h f \<noteq> None \<and> f \<in> set stored) \<longrightarrow>
         addSubtitles h fs a s = s"
    unfolding old_def stored_def using addSubtitles_all_dups [of s fs h a] by auto
  have p5: "map filePath (tracks new) = stored @ fresh
         \<and> (\<exists>appended. map Some appended = map (loadedTrack h) fresh
               \<and> tracks new = relabelTracks Map.empty (tracks old @ appended))
         \<and> addSubtitles h fs a s = s\<lparr>playing := (playing s)\<lparr>subtitles := new\<rparr>\<rparr>
         \<and> showMenu new = showMenu old
         \<and> (\<not> a \<longrightarrow> selectedIndex new = selectedIndex old)
         \<and> (a \<and> (\<exists>f \<in> set fresh. inSystemLanguage h f) \<longrightarrow>
              (\<exists>k < length fresh. selectedIndex new = int (length stored + k)
                 \<and> inSystemLanguage h (fresh ! k)
                 \<and> (\<forall>j. k < j \<and> j < length fresh \<longrightarrow> \<not> inSystemLanguage h (fresh ! j))))
         \<and> (a \<and> (\<forall>f \<in> set fresh. \<not> inSystemLanguage h f) \<and> hd fs \<notin> set stored \<longrightarrow>
              selectedIndex new = int (length stored))
         \<and> (a \<and> (\<forall>f \<in> set fresh. \<not> inSystemLanguage h f) \<and> hd fs \<in> set stored \<longrightarrow>
              selectedIndex new = selectedIndex old)"
    if hyp: "mediaType (playing s) = ''video'' \<and> fs \<noteq> [] \<and> (\<forall>f \<in> set fs. loadedTrack h f \<noteq> None)"
  proof -
    from hyp have v: "mediaType (playing s) = ''video''" and ne: "fs \<noteq> []"
      and load: "\<forall>f \<in> set fs. loadedTrack h f \<noteq> None" by simp_all
    note r = addSubtitles_result [OF v ne load, where a = a, folded old_def new_def stored_def fresh_def]
    note ap = addSubtitles_appended [OF v ne load, where a = a, folded old_def new_def stored_def fresh_def]
    have ls: "length stored = length (tracks old)" by (simp add: stored_def)
    show ?thesis
      using ap(1) ap(2) r(2) r(3) r(4) r(5) r(6) r(7) unfolding ls by blast
  qed
  have p6: "mediaType (playing s) \<noteq> ''video'' \<or> fs = [] \<longrightarrow> addSubtitles h fs a s = s"
    by (auto simp: addSubtitles_def)
  have p7: "(\<exists>f \<in> set fs. loadedTrack h f = None) \<longrightarrow>
         playing (addSubtitles h fs a s) = playing s"
    using addSubtitles_not_loaded [of fs h a s] by blast
  from p1 p2 p3 p4 p5 p6 p7 show ?thesis by blast
qed

lemmas example_defs = exampleState_def examplePlaying_def exampleHost_def exampleConcat_def
  exampleDetect_def exampleGetCode_def

lemmas ingest_defs = addSubtitles_def loadSubtitle_def subtitleTrack_def relabelSubtitles_def
  isSystemLanguage_def capitalize_def toUpperCase_def onError_def update_def updateElectron_def
  Let_def

lemmas offer_defs = loadedTrack_def inSystemLanguage_def offeredFresh_def subtitleTrack_def
  isSystemLanguage_def capitalize_def toUpperCase_def Let_def

lemma storedEnglish_eval:
  "storedEnglish = (exampleState [])\<lparr>playing := examplePlaying\<lparr>subtitles :=
      \<lparr>tracks = [\<lparr>buffer = ''data:text/vtt;base64,Good morning'', language = ''English'',
                   label = ''English'', filePath = ''en1.srt''\<rparr>],
       selectedIndex = -1, showMenu = False\<rparr>\<rparr>\<rparr>"
  by (simp add: storedEnglish_def example_defs ingest_defs)


text \<open>English subtitles are stored, then the stored file is offered again together with a
  German one on an English system: the stored file is skipped, the German track is
  appended behind it, and the selection stays where it was. Offering the stored file
  alone changes nothing.\<close>

theorem no_duplicate_file_paths_witness:
  "distinct (map filePath (tracks (subtitles (playing (exampleState [])))))
   \<and> map filePath (tracks (subtitles (playing
        (ingestAll exampleHost [([''en1.srt'', ''en1.srt''], True), ([''de.srt'', ''en1.srt''], False)]
           (exampleState [])))))
      = [''en1.srt'', ''de.srt'']
   \<and> addSubtitles exampleHost [''en1.srt''] True
        (addSubtitles exampleHost [''en1.srt'', ''de.srt''] False (exampleState []))
      = addSubtitles exampleHost [''en1.srt'', ''de.srt''] False (exampleState [])
   \<and> map filePath (tracks (subtitles (playing storedEnglish))) = [''en1.srt'']
   \<and> selectedIndex (subtitles (playing storedEnglish)) = -1
   \<and> map filePath (tracks (subtitles (playing
        (addSubtitles exampleHost [''en1.srt'', ''de.srt''] True storedEnglish))))
      = [''en1.srt'', ''de.srt'']
   \<and> selectedIndex (subtitles (playing
        (addSubtitles exampleHost [''en1.srt'', ''de.srt''] True storedEnglish))) = -1
   \<and> addSubtitles exampleHost [''en1.srt''] True storedEnglish = storedEnglish"
proof -
  define new where "new = subtitles (playing
        (addSubtitles exampleHost [''en1.srt'', ''de.srt''] True storedEnglish))"
  have c1: "distinct (map filePath (tracks (subtitles (playing (exampleState [])))))"
    by (simp add: example_defs)
  have c2: "map filePath (tracks (subtitles (playing
        (ingestAll exampleHost [([''en1.srt'', ''en1.srt''], True), ([''de.srt'', ''en1.srt''], False)]
           (exampleState [])))))
      = [''en1.srt'', ''de.srt'']"
    by (simp add: example_defs ingest_defs ingestAll_def)
  have c3: "addSubtitles exampleHost [''en1.srt''] True
        (addSubtitles exampleHost [''en1.srt'', ''de.srt''] False (exampleState []))
      = addSubtitles exampleHost [''en1.srt'', ''de.srt''] False (exampleState [])"
    by (simp add: example_defs ingest_defs)
  have stored: "map filePath (tracks (subtitles (playing storedEnglish))) = [''en1.srt'']"
    by (simp add: storedEnglish_eval)
  have sel: "selectedIndex (subtitles (playing storedEnglish)) = -1"
    by (simp add: storedEnglish_eval)
  have lab: "relabelSubtitles (subtitles (playing storedEnglish)) = subtitles (playing storedEnglish)"
    by (simp add: storedEnglish_eval relabelSubtitles_def)
  have d: "distinct (map filePath (tracks (subtitles (playing storedEnglish))))"
    by (simp add: stored)
  have video: "mediaType (playing storedEnglish) = ''video''"
    by (simp add: storedEnglish_eval examplePlaying_def)
  have l1: "\<exists>t. loadedTrack exampleHost ''en1.srt'' = Some t"
    and l2: "\<exists>t. loadedTrack exampleHost ''de.srt'' = Some t"
    by (simp_all add: loadedTrack_def example_defs)
  have fresh: "offeredFresh [''en1.srt''] [''en1.srt'', ''de.srt''] = [''de.srt'']"
    by (simp add: offeredFresh_def)
  have german: "\<not> inSystemLanguage exampleHost ''de.srt''"
    by (simp add: offer_defs example_defs)
  from no_duplicate_file_paths [OF d, where h = exampleHost and a = True
      and fs = "[''en1.srt'', ''de.srt'']" and calls = "[]"]
  have "map filePath (tracks new) = [''en1.srt'', ''de.srt'']
        \<and> selectedIndex new = selectedIndex (subtitles (playing storedEnglish))"
    unfolding new_def [symmetric] stored
    by (simp add: video l1 l2 fresh german)
  moreover from no_duplicate_file_paths [OF d, where h = exampleHost and a = True
      and fs = "[''en1.srt'']" and calls = "[]"]
  have "addSubtitles exampleHost [''en1.srt''] True storedEnglish = storedEnglish"
    unfolding stored by (simp add: lab l1)
  ultimately show ?thesis
    using c1 c2 c3 stored sel unfolding new_def by simp
qed

text \<open>C5: a file that cannot be read. The read error is raised on the file stream, which
  \<open>pipe\<close> does not forward to the converted stream, so the callback handed to \<open>concat\<close>
  never runs: neither \<open>onError\<close> nor the task's callback is called, and the completion
  callback of the batch never runs either. With the file \<open>missing.srt\<close>, which does not
  exist, the call reports no error at all and leaves the state as it was, where the
  claim expects exactly one reported error; offered together with a readable file, it
  keeps that file's track from being stored, again without any report.\<close>

theorem unreadable_file_reports_nothing:
  "concat exampleHost ''missing.srt'' = Silent
   \<and> errors (exampleState []) = []
   \<and> addSubtitles exampleHost [''missing.srt''] True (exampleState []) = exampleState []
   \<and> errors (addSubtitles exampleHost [''missing.srt''] True (exampleState [])) = []
   \<and> mediaType (playing (exampleState [])) = ''video''
   \<and> loadedTrack exampleHost ''en1.srt'' \<noteq> None
   \<and> errors (addSubtitles exampleHost [''en1.srt'', ''missing.srt''] True (exampleState [])) = []
   \<and> tracks (subtitles (playing
        (addSubtitles exampleHost [''en1.srt'', ''missing.srt''] True (exampleState [])))) = []"
  by (simp add: example_defs ingest_defs loadedTrack_def)

text \<open>C3 as stated fails: with a German file and two English files offered in this order
  and an English system, the call selects the second English track (index 2), which is
  neither the first offered file nor the first track in the system language.\<close>

theorem auto_select_counterexample:
  "selectedIndex (subtitles (playing
      (addSubtitles exampleHost [''de.srt'', ''en1.srt'', ''en2.srt''] True (exampleState [])))) = 2
   \<and> map language (tracks (subtitles (playing
      (addSubtitles exampleHost [''de.srt'', ''en1.srt'', ''en2.srt''] True (exampleState [])))))
     = [''German'', ''English'', ''English'']
   \<and> \<not> isSystemLanguage exampleHost ''German''
   \<and> isSystemLanguage exampleHost ''English''"
  by (simp add: example_defs ingest_defs)


lemma offeredFresh_hd:
  assumes "fs \<noteq> []" and "hd fs \<notin> set stored"
  shows "offeredFresh stored fs \<noteq> [] \<and> offeredFresh stored fs ! 0 = hd fs"
proof -
  from assms(1) obtain f fs' where fs: "fs = f # fs'" by (cases fs) auto
  with assms(2) have "f \<notin> set stored" by simp
  then show ?thesis unfolding fs by (simp add: offeredFresh_fresh)
qed

text \<open>C3, amended: the selection made by a call with \<open>autoSelect\<close> that reaches the loop (a
  video plays and every offered file loads). The call appends the tracks of the offered
  files that are not stored yet, in the order of the offers, and an appended track is in
  the system language exactly when its file is. If some appended track is in the system
  language, the last such track is selected. If none is and the first offered file is
  not stored yet, the track of the first offered file is selected, and it is the first
  appended one. If none is and the first offered file is stored already, the selection
  stays as it was. A call that does not reach the loop leaves tracks and selection as
  they were.\<close>

theorem auto_select_last_match:
  fixes s :: app_state and h :: host and fs :: "string list"
  defines "old \<equiv> subtitles (playing s)"
    and "new \<equiv> subtitles (playing (addSubtitles h fs True s))"
  defines "stored \<equiv> map filePath (tracks old)"
  defines "fresh \<equiv> offeredFresh stored fs"
  shows "(mediaType (playing s) = ''video'' \<and> fs \<noteq> [] \<and> (\<forall>f \<in> set fs. loadedTrack h f \<noteq> None) \<longrightarrow>
           map filePath (tracks new) = stored @ fresh
           \<and> (\<forall>k < length fresh.
                 isSystemLanguage h (language (tracks new ! (length stored + k)))
                 \<longleftrightarrow> inSystemLanguage h (fresh ! k))
           \<and> ((\<exists>f \<in> set fresh. inSystemLanguage h f) \<longrightarrow>
                (\<exists>k < length fresh. selectedIndex new = int (length stored + k)
                   \<and> filePath (tracks new ! (length stored + k)) = fresh ! k
                   \<and> isSystemLanguage h (language (tracks new ! (length stored + k)))
                   \<and> (\<forall>j. k < j \<and> j < length fresh \<longrightarrow>
                         \<not> isSystemLanguage h (language (tracks new ! (length stored + j))))))
           \<and> ((\<forall>f \<in> set fresh. \<not> inSystemLanguage h f) \<and> hd fs \<notin> set stored \<longrightarrow>
                selectedIndex new = int (length stored)
                \<and> filePath (tracks new ! length stored) = hd fs)
           \<and> ((\<forall>f \<in> set fresh. \<not> inSystemLanguage h f) \<and> hd fs \<in> set stored \<longrightarrow>
                selectedIndex new = selectedIndex old))
       \<and> (mediaType (playing s) \<noteq> ''video'' \<or> fs = [] \<or> (\<exists>f \<in> set fs. loadedTrack h f = None) \<longrightarrow>
            new = old)"
proof -
  have ls: "length stored = length (tracks old)" by (simp add: stored_def)
  have reach: "map filePath (tracks new) = stored @ fresh
           \<and> (\<forall>k < length fresh.
                 isSystemLanguage h (language (tracks new ! (length stored + k)))
                 \<longleftrightarrow> inSystemLanguage h (fresh ! k))
           \<and> ((\<exists>f \<in> set fresh. inSystemLanguage h f) \<longrightarrow>
                (\<exists>k < length fresh. selectedIndex new = int (length stored + k)
                   \<and> filePath (tracks new ! (length stored + k)) = fresh ! k
                   \<and> isSystemLanguage h (language (tracks new ! (length stored + k)))
                   \<and> (\<forall>j. k < j \<and> j < length fresh \<longrightarrow>
                         \<not> isSystemLanguage h (language (tracks new ! (length stored + j))))))
           \<and> ((\<forall>f \<in> set fresh. \<not> inSystemLanguage h f) \<and> hd fs \<notin> set stored \<longrightarrow>
                selectedIndex new = int (length stored)
                \<and> filePath (tracks new ! length stored) = hd fs)
           \<and> ((\<forall>f \<in> set fresh. \<not> inSystemLanguage h f) \<and> hd fs \<in> set stored \<longrightarrow>
                selectedIndex new = selectedIndex old)"
    if hyp: "mediaType (playing s) = ''video'' \<and> fs \<noteq> [] \<and> (\<forall>f \<in> set fs. loadedTrack h f \<noteq> None)"
  proof -
    from hyp have v: "mediaType (playing s) = ''video''" and ne: "fs \<noteq> []"
      and load: "\<forall>f \<in> set fs. loadedTrack h f \<noteq> None" by simp_all
    note r = addSubtitles_result [OF v ne load, where a = True,
        folded old_def new_def stored_def fresh_def, folded ls]
    have paths: "map filePath (tracks new) = stored @ fresh"
      using addSubtitles_appended(1) [OF v ne load, where a = True]
      by (simp add: new_def old_def stored_def fresh_def)
    have fp: "filePath (tracks new ! (length stored + k)) = fresh ! k" if "k < length fresh" for k
      using addSubtitles_appended(3) [OF v ne load, where a = True and k = k] that
      by (simp add: new_def old_def stored_def fresh_def)
    have lang: "isSystemLanguage h (language (tracks new ! (length stored + k)))
                 \<longleftrightarrow> inSystemLanguage h (fresh ! k)" if "k < length fresh" for k
      using addSubtitles_appended(4) [OF v ne load, where a = True and k = k] that
      by (simp add: new_def old_def stored_def fresh_def)
    have c2: "\<exists>k < length fresh. selectedIndex new = int (length stored + k)
                   \<and> filePath (tracks new ! (length stored + k)) = fresh ! k
                   \<and> isSystemLanguage h (language (tracks new ! (length stored + k)))
                   \<and> (\<forall>j. k < j \<and> j < length fresh \<longrightarrow>
                         \<not> isSystemLanguage h (language (tracks new ! (length stored + j))))"
      if ex: "\<exists>f \<in> set fresh. inSystemLanguage h f"
    proof -
      from r(5) ex obtain k where k: "k < length fresh"
        and sel: "selectedIndex new = int (length stored + k)"
        and sys: "inSystemLanguage h (fresh ! k)"
        and last: "\<forall>j. k < j \<and> j < length fresh \<longrightarrow> \<not> inSystemLanguage h (fresh ! j)"
        by blast
      from last lang have "\<forall>j. k < j \<and> j < length fresh \<longrightarrow>
          \<not> isSystemLanguage h (language (tracks new ! (length stored + j)))" by blast
      with k sel sys fp [OF k] lang [OF k] show ?thesis by blast
    qed
    have c3: "selectedIndex new = int (length stored) \<and> filePath (tracks new ! length stored) = hd fs"
      if no: "\<forall>f \<in> set fresh. \<not> inSystemLanguage h f" and first: "hd fs \<notin> set stored"
    proof -
      from offeredFresh_hd [OF ne first]
      have f0: "fresh \<noteq> []" "fresh ! 0 = hd fs" by (simp_all add: fresh_def)
      then have "0 < length fresh" by simp
      from fp [OF this] f0 have "filePath (tracks new ! length stored) = hd fs" by simp
      moreover have "selectedIndex new = int (length stored)"
        using r(6) no first by (simp add: stored_def)
      ultimately show ?thesis by simp
    qed
    have c4: "selectedIndex new = selectedIndex old"
      if no: "\<forall>f \<in> set fresh. \<not> inSystemLanguage h f" and first: "hd fs \<in> set stored"
      using r(7) no first by (simp add: stored_def)
    from paths lang c2 c3 c4 show ?thesis by blast
  qed
  have skip: "new = old"
    if "mediaType (playing s) \<noteq> ''video'' \<or> fs = [] \<or> (\<exists>f \<in> set fs. loadedTrack h f = None)"
  proof -
    from that consider "mediaType (playing s) \<noteq> ''video'' \<or> fs = []"
      | "\<exists>f \<in> set fs. loadedTrack h f = None" by blast
    then show ?thesis
    proof cases
      case 1
      then have "addSubtitles h fs True s = s" by (auto simp: addSubtitles_def)
      then show ?thesis by (simp add: new_def old_def)
    next
      case 2
      then have "playing (addSubtitles h fs True s) = playing s"
        by (rule addSubtitles_not_loaded)
      then show ?thesis by (simp add: new_def old_def)
    qed
  qed
  from reach skip show ?thesis by blast
qed

text \<open>On an English system: two English files before a German one select the second
  English track; a German file alone is selected as the first offered; and a stored
  English file offered again before a German one leaves the selection as it was.\<close>

theorem auto_select_last_match_witness:
  "selectedIndex (subtitles (playing
        (addSubtitles exampleHost [''en1.srt'', ''en2.srt'', ''de.srt''] True (exampleState [])))) = 1
   \<and> map filePath (tracks (subtitles (playing
        (addSubtitles exampleHost [''en1.srt'', ''en2.srt'', ''de.srt''] True (exampleState [])))))
      = [''en1.srt'', ''en2.srt'', ''de.srt'']
   \<and> inSystemLanguage exampleHost ''en1.srt''
   \<and> inSystemLanguage exampleHost ''en2.srt''
   \<and> \<not> inSystemLanguage exampleHost ''de.srt''
   \<and> selectedIndex (subtitles (playing
        (addSubtitles exampleHost [''de.srt''] True (exampleState [])))) = 0
   \<and> selectedIndex (subtitles (playing storedEnglish)) = -1
   \<and> selectedIndex (subtitles (playing
        (addSubtitles exampleHost [''en1.srt'', ''de.srt''] True storedEnglish))) = -1
   \<and> subtitles (playing (addSubtitles exampleHost [''en1.srt'', ''missing.srt''] True storedEnglish))
      = subtitles (playing storedEnglish)"
proof -
  have old0: "map filePath (tracks (subtitles (playing (exampleState [])))) = []"
    by (simp add: example_defs)
  have old1: "map filePath (tracks (subtitles (playing storedEnglish))) = [''en1.srt'']"
    by (simp add: storedEnglish_eval)
  have sel1: "selectedIndex (subtitles (playing storedEnglish)) = -1"
    by (simp add: storedEnglish_eval)
  have video0: "mediaType (playing (exampleState [])) = ''video''"
    by (simp add: example_defs)
  have video1: "mediaType (playing storedEnglish) = ''video''"
    by (simp add: storedEnglish_eval examplePlaying_def)
  have l1: "\<exists>t. loadedTrack exampleHost ''en1.srt'' = Some t"
    and l2: "\<exists>t. loadedTrack exampleHost ''en2.srt'' = Some t"
    and l3: "\<exists>t. loadedTrack exampleHost ''de.srt'' = Some t"
    and l4: "loadedTrack exampleHost ''missing.srt'' = None"
    by (simp_all add: loadedTrack_def example_defs)
  have e1: "inSystemLanguage exampleHost ''en1.srt''"
    and e2: "inSystemLanguage exampleHost ''en2.srt''"
    and e3: "\<not> inSystemLanguage exampleHost ''de.srt''"
    by (simp_all add: offer_defs example_defs)
  have f1: "offeredFresh [] [''en1.srt'', ''en2.srt'', ''de.srt''] = [''en1.srt'', ''en2.srt'', ''de.srt'']"
    and f2: "offeredFresh [] [''de.srt''] = [''de.srt'']"
    and f3: "offeredFresh [''en1.srt''] [''en1.srt'', ''de.srt''] = [''de.srt'']"
    by (simp_all add: offeredFresh_def)
  define n1 where "n1 = subtitles (playing
        (addSubtitles exampleHost [''en1.srt'', ''en2.srt'', ''de.srt''] True (exampleState [])))"
  define n2 where "n2 = subtitles (playing
        (addSubtitles exampleHost [''de.srt''] True (exampleState [])))"
  define n3 where "n3 = subtitles (playing
        (addSubtitles exampleHost [''en1.srt'', ''de.srt''] True storedEnglish))"
  define n4 where "n4 = subtitles (playing
        (addSubtitles exampleHost [''en1.srt'', ''missing.srt''] True storedEnglish))"
  from auto_select_last_match [where s = "exampleState []" and h = exampleHost
      and fs = "[''en1.srt'', ''en2.srt'', ''de.srt'']"]
  have a1: "map filePath (tracks n1) = [''en1.srt'', ''en2.srt'', ''de.srt'']"
    unfolding n1_def [symmetric] old0 by (simp add: video0 l1 l2 l3 f1)
  have b1: "selectedIndex n1 = 1"
    unfolding n1_def by (simp add: example_defs ingest_defs numToString.simps)
  from auto_select_last_match [where s = "exampleState []" and h = exampleHost
      and fs = "[''de.srt'']"]
  have a2: "selectedIndex n2 = 0"
    unfolding n2_def [symmetric] old0 by (simp add: video0 l3 f2 e3)
  from auto_select_last_match [where s = storedEnglish and h = exampleHost
      and fs = "[''en1.srt'', ''de.srt'']"]
  have a3: "selectedIndex n3 = selectedIndex (subtitles (playing storedEnglish))"
    unfolding n3_def [symmetric] old1 by (simp add: video1 l1 l3 f3 e3)
  from auto_select_last_match [where s = storedEnglish and h = exampleHost
      and fs = "[''en1.srt'', ''missing.srt'']"]
  have a4: "n4 = subtitles (playing storedEnglish)"
    unfolding n4_def [symmetric] by (simp add: l4)
  from a1 b1 a2 a3 a4 e1 e2 e3 sel1 show ?thesis
    unfolding n1_def n2_def n3_def n4_def by simp
qed

section \<open>Properties of the engine events\<close>

lemma sent_field_updates [simp]:
  "sent c (s\<lparr>playing := p\<rparr>) = sent c s"
  "sent c (s\<lparr>window := w\<rparr>) = sent c s"
  "sent c (s\<lparr>dock := d\<rparr>) = sent c s"
  "sent c (s\<lparr>prev := pr\<rparr>) = sent c s"
  "sent c (s\<lparr>errors := er\<rparr>) = sent c s"
  "sent c (s\<lparr>sounds := so\<rparr>) = sent c s"
  "sent c (s\<lparr>notifications := no\<rparr>) = sent c s"
  "sent c (s\<lparr>castLog := cl\<rparr>) = sent c s"
  "sent c (s\<lparr>telemetryLog := x9\<rparr>) = sent c s"
  "sent c (s\<lparr>torrents := ts\<rparr>) = sent c s"
  "sent c (s\<lparr>nextTorrentKey := x11\<rparr>) = sent c s"
  "sent c (s\<lparr>session := se\<rparr>) = sent c s"
  "sent c (s\<lparr>cbCalls := cb\<rparr>) = sent c s"
  "sent c (s\<lparr>ipcLog := xs\<rparr>) = filter (\<lambda>m. fst m = c) xs"
  by (simp_all add: sent_def)

lemma filter_ipcLog [simp]: "filter (\<lambda>m. fst m = c) (ipcLog s) = sent c s"
  by (simp add: sent_def)

lemma sent_updateElectron [simp]:
  "\<not> windowChannel c \<Longrightarrow> sent c (updateElectron s) = sent c s"
  by (auto simp: sent_def updateElectron_def windowChannel_def Let_def simp del: filter_ipcLog)

lemma sent_update [simp]: "\<not> windowChannel c \<Longrightarrow> sent c (update s) = sent c s"
  by (simp add: update_def)

lemma sent_onError [simp]: "\<not> windowChannel c \<Longrightarrow> sent c (onError m s) = sent c s"
  by (simp add: onError_def)

lemma sent_loadSubtitle [simp]:
  "\<not> windowChannel c \<Longrightarrow> sent c (snd (loadSubtitle h f s)) = sent c s"
  by (simp add: loadSubtitle_def Let_def split: concat_result.splits)

lemma sent_runTasks [simp]:
  "\<not> windowChannel c \<Longrightarrow> sent c (snd (runTasks h fs s)) = sent c s"
  by (induction fs arbitrary: s) (simp_all add: split_beta Let_def)

lemma sent_addSubtitles [simp]:
  assumes "\<not> windowChannel c"
  shows "sent c (addSubtitles h fs a s) = sent c s"
proof -
  obtain outs s1 where rt: "runTasks h fs s = (outs, s1)"
    by (cases "runTasks h fs s")
  then have "sent c s1 = sent c s"
    using sent_runTasks [OF assms, of h fs s] by simp
  then show ?thesis
    using assms by (cases "parallel outs") (auto simp: addSubtitles_def rt)
qed

lemma checkFiles_frame:
  "torrents (stateOf (checkFiles h t ix fps s)) = torrents s
   \<and> session (stateOf (checkFiles h t ix fps s)) = session s
   \<and> cbCalls (stateOf (checkFiles h t ix fps s)) = cbCalls s
   \<and> notifications (stateOf (checkFiles h t ix fps s)) = notifications s
   \<and> (\<not> windowChannel c \<longrightarrow> sent c (stateOf (checkFiles h t ix fps s)) = sent c s)"
  by (induction h t ix fps s rule: checkFiles.induct)
     (auto simp: stateOf_def split: option.splits)

lemma checkForSubtitles_frame:
  "torrents (stateOf (checkForSubtitles l h s)) = torrents s
   \<and> session (stateOf (checkForSubtitles l h s)) = session s
   \<and> cbCalls (stateOf (checkForSubtitles l h s)) = cbCalls s
   \<and> notifications (stateOf (checkForSubtitles l h s)) = notifications s
   \<and> (\<not> windowChannel c \<longrightarrow> sent c (stateOf (checkForSubtitles l h s)) = sent c s)"
  using checkFiles_frame [of h _ 0 _ s c]
  by (auto simp: checkForSubtitles_def stateOf_def split: option.splits progress_info.splits)

lemma getTorrentSummary_bound:
  "getTorrentSummary l s key = Some pos \<Longrightarrow> pos < length (torrents s)"
  by (auto simp: getTorrentSummary_def split: option.splits if_splits)

lemma setSummary_fields [simp]:
  "playing (setSummary pos f s) = playing s"
  "window (setSummary pos f s) = window s"
  "dock (setSummary pos f s) = dock s"
  "sounds (setSummary pos f s) = sounds s"
  "notifications (setSummary pos f s) = notifications s"
  "session (setSummary pos f s) = session s"
  "cbCalls (setSummary pos f s) = cbCalls s"
  "ipcLog (setSummary pos f s) = ipcLog s"
  "sent c (setSummary pos f s) = sent c s"
  "telemetryLog (setSummary pos f s) = telemetryLog s"
  "torrents (setSummary pos f s) = (torrents s)[pos := f (torrents s ! pos)]"
  by (simp_all add: setSummary_def)

lemma getTorrentPath_status [simp]:
  "getTorrentPath h (t\<lparr>status := x\<rparr>) = getTorrentPath h t"
  by (simp add: getTorrentPath_def split: option.splits list.splits)

text \<open>C6: for a torrent that is known, \<open>torrentDone\<close> sets the status to seeding, with
  zero received bytes it shows no notification, plays no sound, leaves the badge and
  sends no \<open>downloadFinished\<close>, and with at least one received byte it shows exactly one
  notification, raises the badge by one when the window is not focused, and sends
  \<open>downloadFinished\<close> once (when the torrent has a path to report).\<close>

theorem torrentDone_notifies_after_download:
  fixes s :: app_state and l :: libs and h :: host and key :: js_key and bytesReceived :: nat
  defines "after \<equiv> stateOf (torrentDone l h key bytesReceived s)"
  assumes found: "getTorrentSummary l s key = Some pos"
  shows "status (torrents after ! pos) = ''seeding''
    \<and> (bytesReceived = 0 \<longrightarrow>
          notifications after = notifications s
          \<and> badge (dock after) = badge (dock s)
          \<and> sounds after = sounds s
          \<and> sent ''downloadFinished'' after = sent ''downloadFinished'' s)
    \<and> (bytesReceived \<ge> 1 \<longrightarrow>
          notifications after
            = notifications s @ [(''Download Complete'', summaryName (torrents s ! pos))]
          \<and> sounds after = sounds s @ [''DONE'']
          \<and> badge (dock after)
            = (if isFocused (window s) then badge (dock s) else badge (dock s) + 1)
          \<and> sent ''downloadFinished'' after
            = sent ''downloadFinished'' s @
                (case getTorrentPath h (torrents s ! pos) of
                   None \<Rightarrow> []
                 | Some p \<Rightarrow> [(''downloadFinished'', [S p])]))"
proof -
  have pos: "pos < length (torrents s)"
    using found by (rule getTorrentSummary_bound)
  have nw: "\<not> windowChannel ''downloadFinished''"
    by (simp add: windowChannel_def)
  show ?thesis
  proof (cases "bytesReceived = 0")
    case True
    then show ?thesis
      using pos found nw by (simp add: after_def torrentDone_def stateOf_def Let_def)
  next
    case False
    then have pos1: "bytesReceived \<ge> 1" by simp
    show ?thesis
    proof (cases "getTorrentPath h (torrents s ! pos)")
      case None
      then show ?thesis
        using pos found nw False
        by (simp add: after_def torrentDone_def stateOf_def Let_def showDoneNotification_def)
    next
      case (Some p)
      then show ?thesis
        using pos found nw False
        by (simp add: after_def torrentDone_def stateOf_def Let_def showDoneNotification_def)
    qed
  qed
qed

text \<open>A completion with 0 and with 5 received bytes, the window not focused.\<close>

theorem torrentDone_notifies_after_download_witness:
  "getTorrentSummary exampleLibs (exampleState [doneSummary]) (KeyNum 7) = Some 0
   \<and> notifications (stateOf (torrentDone exampleLibs exampleHost (KeyNum 7) 0 (exampleState [doneSummary]))) = []
   \<and> badge (dock (stateOf (torrentDone exampleLibs exampleHost (KeyNum 7) 0 (exampleState [doneSummary])))) = 0
   \<and> status (torrents (stateOf (torrentDone exampleLibs exampleHost (KeyNum 7) 0 (exampleState [doneSummary]))) ! 0) = ''seeding''
   \<and> notifications (stateOf (torrentDone exampleLibs exampleHost (KeyNum 7) 5 (exampleState [doneSummary])))
       = [(''Download Complete'', Some ''Example'')]
   \<and> badge (dock (stateOf (torrentDone exampleLibs exampleHost (KeyNum 7) 5 (exampleState [doneSummary])))) = 1
   \<and> sent ''downloadFinished'' (stateOf (torrentDone exampleLibs exampleHost (KeyNum 7) 5 (exampleState [doneSummary])))
       = [(''downloadFinished'', [S ''/tmp''])]
   \<and> status (torrents (stateOf (torrentDone exampleLibs exampleHost (KeyNum 7) 5 (exampleState [doneSummary]))) ! 0) = ''seeding''"
proof -
  have found: "getTorrentSummary exampleLibs (exampleState [doneSummary]) (KeyNum 7) = Some 0"
    by (simp add: getTorrentSummary_def exampleLibs_def exampleByKey_def exampleState_def
        doneSummary_def exampleSummary_def)
  have path: "getTorrentPath exampleHost (torrents (exampleState [doneSummary]) ! 0) = Some ''/tmp''"
    by (simp add: getTorrentPath_def exampleState_def doneSummary_def exampleSummary_def
        exampleHost_def exampleJoin_def exampleDirname_def exampleFile_def)
  have init: "notifications (exampleState [doneSummary]) = []" "sounds (exampleState [doneSummary]) = []"
    "badge (dock (exampleState [doneSummary])) = 0" "\<not> isFocused (window (exampleState [doneSummary]))"
    "sent ''downloadFinished'' (exampleState [doneSummary]) = []"
    "summaryName (torrents (exampleState [doneSummary]) ! 0) = Some ''Example''"
    by (simp_all add: exampleState_def sent_def doneSummary_def exampleSummary_def)
  show ?thesis
    using torrentDone_notifies_after_download [OF found, of exampleHost 0]
      torrentDone_notifies_after_download [OF found, of exampleHost 5]
    by (simp add: found path init)
qed

section \<open>Properties of the playback session\<close>

lemma foldl_larger:
  fixes x :: "nat \<times> file_summary"
  defines "pick \<equiv> (\<lambda>a b. if fileLength (snd a) > fileLength (snd b) then a else b)"
  shows "foldl pick x xs \<in> set (x # xs)
         \<and> (\<forall>y \<in> set (x # xs). fileLength (snd y) \<le> fileLength (snd (foldl pick x xs)))"
proof (induction xs arbitrary: x)
  case Nil
  then show ?case by simp
next
  case (Cons a xs)
  from Cons [of "pick x a"] show ?case
    by (auto simp: pick_def split: if_splits)
qed

lemma ne_of_mem: "x \<in> set xs \<Longrightarrow> xs \<noteq> []"
  by (cases xs) simp_all

lemma in_indexed: "(i, f) \<in> set (zip [0..<length fs] fs) \<longleftrightarrow> i < length fs \<and> f = fs ! i"
proof
  assume "(i, f) \<in> set (zip [0..<length fs] fs)"
  then obtain n where "n < length fs" "i = [0..<length fs] ! n" "f = fs ! n"
    by (auto simp: set_zip)
  then show "i < length fs \<and> f = fs ! i" by simp
next
  assume a: "i < length fs \<and> f = fs ! i"
  then have "(i, f) = ([0..<length fs] ! i, fs ! i)" by simp
  moreover have "i < min (length [0..<length fs]) (length fs)" using a by simp
  ultimately show "(i, f) \<in> set (zip [0..<length fs] fs)"
    unfolding set_zip by blast
qed

lemma pickFileToPlay_video:
  assumes "\<exists>f \<in> set fs. isVideo l f"
  shows "\<exists>i < length fs. pickFileToPlay l fs = Some i \<and> isVideo l (fs ! i)
           \<and> (\<forall>j < length fs. isVideo l (fs ! j) \<longrightarrow> fileLength (fs ! j) \<le> fileLength (fs ! i))"
proof -
  let ?vs = "filter (\<lambda>(i, f). isVideo l f) (zip [0..<length fs] fs)"
  let ?pick = "\<lambda>a b. if fileLength (snd a) > fileLength (snd b) then a else (b :: nat \<times> file_summary)"
  from assms obtain k where k: "k < length fs" "isVideo l (fs ! k)"
    by (auto simp: in_set_conv_nth)
  then have "(k, fs ! k) \<in> set ?vs" by (simp add: in_indexed)
  then have ne: "?vs \<noteq> []" by (rule ne_of_mem)
  then have vs: "hd ?vs # tl ?vs = ?vs" by simp
  let ?r = "foldl ?pick (hd ?vs) (tl ?vs)"
  have r: "?r \<in> set ?vs" "\<forall>y \<in> set ?vs. fileLength (snd y) \<le> fileLength (snd ?r)"
    using foldl_larger [of "hd ?vs" "tl ?vs"] unfolding vs by blast+
  obtain i f where rif: "?r = (i, f)" by (cases ?r)
  with r(1) have i: "i < length fs" "f = fs ! i" "isVideo l f"
    by (auto simp: in_indexed)
  have max: "\<forall>j < length fs. isVideo l (fs ! j) \<longrightarrow> fileLength (fs ! j) \<le> fileLength (fs ! i)"
  proof (intro allI impI)
    fix j assume "j < length fs" "isVideo l (fs ! j)"
    then have "(j, fs ! j) \<in> set ?vs" by (simp add: in_indexed)
    with r(2) have "fileLength (snd (j, fs ! j)) \<le> fileLength (snd ?r)" by blast
    then show "fileLength (fs ! j) \<le> fileLength (fs ! i)" using rif i by simp
  qed
  have "pickFileToPlay l fs = Some i"
    using ne rif by (simp add: pickFileToPlay_def Let_def)
  with i max show ?thesis by blast
qed

lemma hd_filter_first:
  assumes "filter P xs \<noteq> []"
  shows "\<exists>k < length xs. hd (filter P xs) = xs ! k \<and> P (xs ! k) \<and> (\<forall>j < k. \<not> P (xs ! j))"
  using assms
proof (induction xs)
  case Nil
  then show ?case by simp
next
  case (Cons x xs)
  show ?case
  proof (cases "P x")
    case True
    then show ?thesis by (intro exI [of _ 0]) simp
  next
    case False
    with Cons obtain k where k: "k < length xs" "hd (filter P xs) = xs ! k" "P (xs ! k)"
      "\<forall>j < k. \<not> P (xs ! j)" by auto
    show ?thesis
    proof (intro exI [of _ "Suc k"] conjI allI impI)
      fix j assume "j < Suc k"
      then show "\<not> P ((x # xs) ! j)" using False k(4) by (cases j) auto
    qed (use False k in auto)
  qed
qed

lemma pickFileToPlay_audio:
  assumes "\<forall>f \<in> set fs. \<not> isVideo l f" "\<exists>f \<in> set fs. isAudio l f"
  shows "\<exists>i < length fs. pickFileToPlay l fs = Some i \<and> isAudio l (fs ! i)
           \<and> (\<forall>j < i. \<not> isAudio l (fs ! j))"
proof -
  define xs where "xs = zip [0..<length fs] fs"
  define P where "P = (\<lambda>(i :: nat, f). isAudio l f)"
  have xi: "xs ! j = (j, fs ! j)" if "j < length fs" for j
    using that by (simp add: xs_def)
  have len: "length xs = length fs" by (simp add: xs_def)
  have novid: "filter (\<lambda>(i, f). isVideo l f) xs = []"
    unfolding filter_empty_conv xs_def using assms(1) by (auto dest: set_zip_rightD)
  from assms(2) obtain k where k: "k < length fs" "isAudio l (fs ! k)"
    by (auto simp: in_set_conv_nth)
  have "xs ! k \<in> set xs" using k(1) len by simp
  moreover have "P (xs ! k)" using k by (simp add: xi P_def)
  ultimately have "xs ! k \<in> set (filter P xs)" by simp
  then have ne: "filter P xs \<noteq> []" by (rule ne_of_mem)
  from hd_filter_first [OF ne] obtain i where
    i: "i < length xs" "hd (filter P xs) = xs ! i" "P (xs ! i)" "\<forall>j < i. \<not> P (xs ! j)"
    by blast
  have il: "i < length fs" using i(1) len by simp
  have hdi: "fst (hd (filter P xs)) = i" using i(2) xi [OF il] by simp
  have "pickFileToPlay l fs = Some i"
    using novid ne hdi unfolding pickFileToPlay_def Let_def xs_def [symmetric] P_def [symmetric]
    by simp
  moreover have "isAudio l (fs ! i)" using i(3) xi [OF il] by (simp add: P_def)
  moreover have "\<forall>j < i. \<not> isAudio l (fs ! j)"
  proof (intro allI impI)
    fix j assume j: "j < i"
    then have "\<not> P (xs ! j)" using i(4) by blast
    moreover have "xs ! j = (j, fs ! j)" using j il by (intro xi) simp
    ultimately show "\<not> isAudio l (fs ! j)" by (simp add: P_def)
  qed
  ultimately show ?thesis using il by blast
qed

lemma pickFileToPlay_none:
  assumes "\<forall>f \<in> set fs. \<not> isVideo l f \<and> \<not> isAudio l f"
  shows "pickFileToPlay l fs = None"
proof -
  have "filter (\<lambda>(i, f). isVideo l f) (zip [0..<length fs] fs) = []"
    "filter (\<lambda>(i, f). isAudio l f) (zip [0..<length fs] fs) = []"
    using assms by (auto simp: filter_empty_conv dest: set_zip_rightD)
  then show ?thesis by (simp add: pickFileToPlay_def Let_def)
qed

lemma stateOf_simps [simp]: "stateOf (Normal s) = s" "stateOf (Abrupt e s) = s"
  by (simp_all add: stateOf_def)

lemma checkForSubtitles_Normal:
  assumes "checkForSubtitles l h s = Normal s'"
  shows "torrents s' = torrents s" "session s' = session s" "cbCalls s' = cbCalls s"
    "\<not> windowChannel c \<Longrightarrow> sent c s' = sent c s"
  using checkForSubtitles_frame [of l h s c] assms by simp_all

lemma checkForSubtitles_Abrupt:
  assumes "checkForSubtitles l h s = Abrupt e s'"
  shows "torrents s' = torrents s" "session s' = session s" "cbCalls s' = cbCalls s"
    "\<not> windowChannel c \<Longrightarrow> sent c s' = sent c s"
  using checkForSubtitles_frame [of l h s c] assms by simp_all

lemma beforeCheck_frame:
  "torrents (beforeCheck l pos i f s) = torrents s"
  "session (beforeCheck l pos i f s) = session s"
  "cbCalls (beforeCheck l pos i f s) = cbCalls s"
  "c \<noteq> ''wt-get-audio-metadata'' \<Longrightarrow> sent c (beforeCheck l pos i f s) = sent c s"
  by (simp_all add: beforeCheck_def Let_def split: option.splits)

lemma openPlayerFromActiveTorrent_unfold:
  "openPlayerFromActiveTorrent l h pos index s =
     (case summaryFiles (torrents s ! pos) of
        None \<Rightarrow> Abrupt ''TypeError'' s
      | Some fs \<Rightarrow>
          if index \<ge> length fs
          then Abrupt ''TypeError''
                 (s\<lparr>playing := (playing s)\<lparr>infoHash := summaryHash (torrents s ! pos),
                                            fileIndex := Some index\<rparr>\<rparr>)
          else (case checkForSubtitles l h (beforeCheck l pos index (fs ! index) s) of
                  Abrupt e s5 \<Rightarrow> Abrupt e s5
                | Normal s5 \<Rightarrow>
                    Normal (s5\<lparr>ipcLog := ipcLog s5 @
                                [(''wt-start-server'',
                                  [hashArg (summaryHash (torrents s ! pos)), N (of_nat index)])],
                               session := map_option
                                 (\<lambda>ss. ss\<lparr>awaitingServer :=
                                        Some (''wt-server-'' @ hashStr (summaryHash (torrents s ! pos)))\<rparr>)
                                 (session s5)\<rparr>)))"
  by (simp add: openPlayerFromActiveTorrent_def beforeCheck_def Let_def split: option.splits)

lemma openPlayerFromActiveTorrent_frame:
  fixes s :: app_state and l :: libs and h :: host and pos :: nat and index :: nat
  defines "r \<equiv> stateOf (openPlayerFromActiveTorrent l h pos index s)"
  shows "torrents r = torrents s"
    and "cbCalls r = cbCalls s"
    and "\<not> windowChannel c \<Longrightarrow> c \<noteq> ''wt-get-audio-metadata'' \<Longrightarrow> c \<noteq> ''wt-start-server''
         \<Longrightarrow> sent c r = sent c s"
    and "session r = session s
         \<or> session r = map_option
              (\<lambda>ss. ss\<lparr>awaitingServer :=
                     Some (''wt-server-'' @ hashStr (summaryHash (torrents s ! pos)))\<rparr>) (session s)"
proof -
  show "torrents r = torrents s"
    unfolding r_def openPlayerFromActiveTorrent_unfold
    by (auto split: option.splits completion.splits
        simp: beforeCheck_frame dest: checkForSubtitles_Normal(1) checkForSubtitles_Abrupt(1))
  show "cbCalls r = cbCalls s"
    unfolding r_def openPlayerFromActiveTorrent_unfold
    by (auto split: option.splits completion.splits
        simp: beforeCheck_frame dest: checkForSubtitles_Normal(3) checkForSubtitles_Abrupt(3))
  show "sent c r = sent c s"
    if "\<not> windowChannel c" "c \<noteq> ''wt-get-audio-metadata''" "c \<noteq> ''wt-start-server''"
    unfolding r_def openPlayerFromActiveTorrent_unfold
    using that
    by (auto split: option.splits completion.splits
        simp: beforeCheck_frame
        dest: checkForSubtitles_Normal(4) [where c = c] checkForSubtitles_Abrupt(4) [where c = c])
  show "session r = session s
         \<or> session r = map_option
              (\<lambda>ss. ss\<lparr>awaitingServer :=
                     Some (''wt-server-'' @ hashStr (summaryHash (torrents s ! pos)))\<rparr>) (session s)"
    unfolding r_def openPlayerFromActiveTorrent_unfold
    by (auto split: option.splits completion.splits
        simp: beforeCheck_frame dest: checkForSubtitles_Normal(2) checkForSubtitles_Abrupt(2))
qed

lemma startTorrentingSummary_frame:
  "session (startTorrentingSummary pos s) = session s"
  "cbCalls (startTorrentingSummary pos s) = cbCalls s"
  "length (torrents (startTorrentingSummary pos s)) = length (torrents s)"
  "pos < length (torrents s) \<Longrightarrow>
     playStatus (torrents (startTorrentingSummary pos s) ! pos) = playStatus (torrents s ! pos)"
  "pos < length (torrents s) \<Longrightarrow>
     summaryHash (torrents (startTorrentingSummary pos s) ! pos) = summaryHash (torrents s ! pos)"
  by (simp_all add: startTorrentingSummary_def Let_def)

lemma openPlayer_resolved:
  assumes found: "getTorrentSummary l s key = Some pos"
    and res: "resolveIndex l (torrents s ! pos) index0 = Resolved i"
  shows "\<exists>ss. session (stateOf (openPlayer l h key index0 s)) = Some ss
            \<and> sessIndex ss = i \<and> sessTorrent ss = pos"
    and "cbCalls (stateOf (openPlayer l h key index0 s)) = cbCalls s"
    and "playStatus (torrents (stateOf (openPlayer l h key index0 s)) ! pos) = Some ''requested''"
proof -
  have pos: "pos < length (torrents s)"
    using found by (rule getTorrentSummary_bound)
  define s3 where "s3 =
    (update (setSummary pos (\<lambda>t. t\<lparr>playStatus := Some ''requested''\<rparr>)
       (if summaryProgress (torrents s ! pos) \<noteq> Some (ProgressNum 1)
        then s\<lparr>sounds := sounds s @ [''PLAY'']\<rparr> else s)))
      \<lparr>session := Some \<lparr>sessTorrent = pos, sessIndex = i, timer = Armed,
                         awaitingReady = None, awaitingServer = None\<rparr>\<rparr>"
  have s3: "session s3 = Some \<lparr>sessTorrent = pos, sessIndex = i, timer = Armed,
                         awaitingReady = None, awaitingServer = None\<rparr>"
    "cbCalls s3 = cbCalls s" "length (torrents s3) = length (torrents s)"
    "playStatus (torrents s3 ! pos) = Some ''requested''"
    using pos by (simp_all add: s3_def)
  have op: "openPlayer l h key index0 s =
    (if status (torrents s3 ! pos) = ''paused''
     then Normal ((startTorrentingSummary pos s3)\<lparr>session := map_option
            (\<lambda>ss. ss\<lparr>awaitingReady :=
               Some (''wt-ready-'' @ hashStr (summaryHash (torrents (startTorrentingSummary pos s3) ! pos)))\<rparr>)
            (session (startTorrentingSummary pos s3))\<rparr>)
     else openPlayerFromActiveTorrent l h pos i s3)"
    using found res by (simp add: openPlayer_def s3_def Let_def)
  show "\<exists>ss. session (stateOf (openPlayer l h key index0 s)) = Some ss
            \<and> sessIndex ss = i \<and> sessTorrent ss = pos"
    using openPlayerFromActiveTorrent_frame(4) [of l h pos i s3] s3
    by (auto simp: op startTorrentingSummary_frame)
  show "cbCalls (stateOf (openPlayer l h key index0 s)) = cbCalls s"
    using s3 by (simp add: op startTorrentingSummary_frame openPlayerFromActiveTorrent_frame)
  show "playStatus (torrents (stateOf (openPlayer l h key index0 s)) ! pos) = Some ''requested''"
    using s3 pos by (simp add: op startTorrentingSummary_frame openPlayerFromActiveTorrent_frame)
qed

text \<open>C8: for a torrent that is known and an open without a file index, the index is the
  cached default when there is one; otherwise it is computed from the files: a video file
  of the largest size when there is a video, else the first audio file, else none. With
  none, \<open>openPlayer\<close> only calls back with an \<open>UnplayableError\<close>: no play status, no sound,
  no message, no timer. With an index, the session is started on it and the summary is
  marked as requested.\<close>

theorem openPlayer_resolves_index:
  fixes s :: app_state and pos :: nat
  defines "t \<equiv> torrents s ! pos"
  assumes found: "getTorrentSummary l s key = Some pos"
  shows "(defaultPlayFileIndex t = Some d \<longrightarrow> resolveIndex l t None = Resolved d)
    \<and> (defaultPlayFileIndex t = None \<and> summaryFiles t = Some fs \<longrightarrow>
          ((\<exists>f \<in> set fs. isVideo l f) \<longrightarrow>
             (\<exists>i < length fs. resolveIndex l t None = Resolved i \<and> isVideo l (fs ! i)
                \<and> (\<forall>j < length fs. isVideo l (fs ! j) \<longrightarrow> fileLength (fs ! j) \<le> fileLength (fs ! i))))
        \<and> ((\<forall>f \<in> set fs. \<not> isVideo l f) \<and> (\<exists>f \<in> set fs. isAudio l f) \<longrightarrow>
             (\<exists>i < length fs. resolveIndex l t None = Resolved i \<and> isAudio l (fs ! i)
                \<and> (\<forall>j < i. \<not> isAudio l (fs ! j))))
        \<and> ((\<forall>f \<in> set fs. \<not> isVideo l f \<and> \<not> isAudio l f) \<longrightarrow>
             resolveIndex l t None = Unplayable))
    \<and> (resolveIndex l t None = Unplayable \<longrightarrow>
          openPlayer l h key None s = Normal (s\<lparr>cbCalls := cbCalls s @ [Some ''UnplayableError'']\<rparr>))
    \<and> (resolveIndex l t None = Resolved i \<longrightarrow>
          (\<exists>ss. session (stateOf (openPlayer l h key None s)) = Some ss
                \<and> sessIndex ss = i \<and> sessTorrent ss = pos)
          \<and> cbCalls (stateOf (openPlayer l h key None s)) = cbCalls s
          \<and> playStatus (torrents (stateOf (openPlayer l h key None s)) ! pos) = Some ''requested'')"
proof (intro conjI impI)
  assume "defaultPlayFileIndex t = Some d"
  then show "resolveIndex l t None = Resolved d" by (simp add: resolveIndex_def)
next
  assume a: "defaultPlayFileIndex t = None \<and> summaryFiles t = Some fs" "\<exists>f \<in> set fs. isVideo l f"
  from pickFileToPlay_video [OF a(2)] a(1)
  show "\<exists>i < length fs. resolveIndex l t None = Resolved i \<and> isVideo l (fs ! i)
                \<and> (\<forall>j < length fs. isVideo l (fs ! j) \<longrightarrow> fileLength (fs ! j) \<le> fileLength (fs ! i))"
    by (auto simp: resolveIndex_def)
next
  assume a: "defaultPlayFileIndex t = None \<and> summaryFiles t = Some fs"
    "(\<forall>f \<in> set fs. \<not> isVideo l f) \<and> (\<exists>f \<in> set fs. isAudio l f)"
  then have "\<forall>f \<in> set fs. \<not> isVideo l f" "\<exists>f \<in> set fs. isAudio l f" by blast+
  from pickFileToPlay_audio [OF this] a(1)
  show "\<exists>i < length fs. resolveIndex l t None = Resolved i \<and> isAudio l (fs ! i)
                \<and> (\<forall>j < i. \<not> isAudio l (fs ! j))"
    by (auto simp: resolveIndex_def)
next
  assume a: "defaultPlayFileIndex t = None \<and> summaryFiles t = Some fs"
    "\<forall>f \<in> set fs. \<not> isVideo l f \<and> \<not> isAudio l f"
  from pickFileToPlay_none [OF a(2)] a(1)
  show "resolveIndex l t None = Unplayable" by (simp add: resolveIndex_def)
next
  assume "resolveIndex l t None = Unplayable"
  then show "openPlayer l h key None s = Normal (s\<lparr>cbCalls := cbCalls s @ [Some ''UnplayableError'']\<rparr>)"
    using found by (simp add: openPlayer_def t_def)
next
  assume r: "resolveIndex l t None = Resolved i"
  then have r': "resolveIndex l (torrents s ! pos) None = Resolved i" by (simp add: t_def)
  from openPlayer_resolved [OF found r']
  show "\<exists>ss. session (stateOf (openPlayer l h key None s)) = Some ss
                \<and> sessIndex ss = i \<and> sessTorrent ss = pos"
    "cbCalls (stateOf (openPlayer l h key None s)) = cbCalls s"
    "playStatus (torrents (stateOf (openPlayer l h key None s)) ! pos) = Some ''requested''"
    by blast+
qed

lemmas summary_defs = exampleState_def exampleSummary_def exampleFile_def exampleLibs_def
  exampleByKey_def exampleExtname_def getTorrentSummary_def

text \<open>A torrent with only a text file is unplayable; of two videos and an audio file the
  larger video, at index 1, is chosen; a cached default wins.\<close>

theorem openPlayer_resolves_index_witness:
  "getTorrentSummary exampleLibs (exampleState [textOnly]) (KeyStr ''abc'') = Some 0
   \<and> openPlayer exampleLibs exampleHost (KeyStr ''abc'') None (exampleState [textOnly])
       = Normal ((exampleState [textOnly])\<lparr>cbCalls := [Some ''UnplayableError'']\<rparr>)
   \<and> getTorrentSummary exampleLibs (exampleState [movies]) (KeyStr ''abc'') = Some 0
   \<and> resolveIndex exampleLibs movies None = Resolved 1
   \<and> resolveIndex exampleLibs (movies\<lparr>defaultPlayFileIndex := Some 2\<rparr>) None = Resolved 2
   \<and> map_option sessIndex
        (session (stateOf (openPlayer exampleLibs exampleHost (KeyStr ''abc'') None (exampleState [movies]))))
       = Some 1"
proof -
  have f1: "getTorrentSummary exampleLibs (exampleState [textOnly]) (KeyStr ''abc'') = Some 0"
    by (simp add: summary_defs textOnly_def)
  have f2: "getTorrentSummary exampleLibs (exampleState [movies]) (KeyStr ''abc'') = Some 0"
    by (simp add: summary_defs movies_def)
  have t1: "torrents (exampleState [textOnly]) ! 0 = textOnly"
    and t2: "torrents (exampleState [movies]) ! 0 = movies"
    and c1: "cbCalls (exampleState [textOnly]) = []"
    by (simp_all add: exampleState_def)
  have r1: "resolveIndex exampleLibs textOnly None = Unplayable"
    by (simp add: resolveIndex_def pickFileToPlay_def textOnly_def summary_defs Let_def)
  have r2: "resolveIndex exampleLibs movies None = Resolved 1"
    by (simp add: resolveIndex_def pickFileToPlay_def movies_def summary_defs Let_def upt_rec)
  have r3: "resolveIndex exampleLibs (movies\<lparr>defaultPlayFileIndex := Some 2\<rparr>) None = Resolved 2"
    by (simp add: resolveIndex_def)
  have a: "openPlayer exampleLibs exampleHost (KeyStr ''abc'') None (exampleState [textOnly])
       = Normal ((exampleState [textOnly])\<lparr>cbCalls := [Some ''UnplayableError'']\<rparr>)"
    using openPlayer_resolves_index [OF f1, of 0 "[]" exampleHost 0] r1 by (simp add: t1 c1)
  have b: "map_option sessIndex
        (session (stateOf (openPlayer exampleLibs exampleHost (KeyStr ''abc'') None (exampleState [movies]))))
       = Some 1"
    using openPlayer_resolves_index [OF f2, of 0 "[]" exampleHost 1] r2 by (auto simp: t2)
  from f1 a f2 r2 r3 b show ?thesis by blast
qed

lemma not_window [simp]:
  "\<not> windowChannel ''wt-stop-server''" "\<not> windowChannel ''onPlayerOpen''"
  by (simp_all add: windowChannel_def)

lemma onTimeout_frame:
  "session (onTimeout pos s) = session s"
  "torrents (onTimeout pos s) = (torrents s)[pos := (torrents s ! pos)\<lparr>playStatus := Some ''timeout''\<rparr>]"
  "cbCalls (onTimeout pos s) = cbCalls s @ [Some ''Playback timed out. Try again.'']"
  "\<not> windowChannel c \<Longrightarrow> sent c (onTimeout pos s) = sent c s"
  by (simp_all add: onTimeout_def Let_def)

lemma timer_fires:
  assumes "session s = Some ss" "timer ss = Armed" "sessTorrent ss = pos"
    "awaitingReady ss = None \<or> awaitingServer ss = None"
    "awaitingServer ss = None \<or> awaitingServer ss = Some ch"
  shows "timedOutPending s pos ch (stateOf (handleEvent l h TimerFires s))"
  using assms by (auto simp: timedOutPending_def handleEvent_def onTimeout_frame)

lemma pending_step:
  assumes inv: "timedOutPending s0 pos ch st"
    and pos: "pos < length (torrents s0)"
    and ch: "ch = ''wt-server-'' @ hashStr (summaryHash (torrents s0 ! pos))"
    and ev: "ev \<noteq> IpcMessage ch"
  shows "timedOutPending s0 pos ch (stateOf (handleEvent l h ev st))"
proof -
  from inv obtain ss where ss: "session st = Some ss" "sessTorrent ss = pos" "timer ss = Fired"
    "awaitingReady ss = None \<or> awaitingServer ss = None"
    "awaitingServer ss = None \<or> awaitingServer ss = Some ch"
    by (auto simp: timedOutPending_def)
  from inv have tor: "torrents st = (torrents s0)[pos := (torrents s0 ! pos)\<lparr>playStatus := Some ''timeout''\<rparr>]"
    by (simp add: timedOutPending_def)
  have hash: "summaryHash (torrents st ! pos) = summaryHash (torrents s0 ! pos)"
    using pos by (simp add: tor)
  show ?thesis
  proof (cases ev)
    case TimerFires
    then show ?thesis using inv ss by (simp add: handleEvent_def)
  next
    case (IpcMessage c)
    show ?thesis
    proof (cases "awaitingReady ss = Some c")
      case True
      let ?st' = "st\<lparr>session := Some (ss\<lparr>awaitingReady := None\<rparr>)\<rparr>"
      let ?r = "stateOf (openPlayerFromActiveTorrent l h pos (sessIndex ss) ?st')"
      have step: "stateOf (handleEvent l h ev st) = ?r"
        using IpcMessage ss True by (simp add: handleEvent_def)
      have as: "awaitingServer ss = None" using True ss(4) by auto
      have "session ?r = session ?st'
         \<or> session ?r = map_option
              (\<lambda>ss. ss\<lparr>awaitingServer :=
                     Some (''wt-server-'' @ hashStr (summaryHash (torrents ?st' ! pos)))\<rparr>) (session ?st')"
        by (rule openPlayerFromActiveTorrent_frame(4))
      then have sess: "\<exists>ss'. session ?r = Some ss' \<and> sessTorrent ss' = pos \<and> timer ss' = Fired
           \<and> (awaitingReady ss' = None \<or> awaitingServer ss' = None)
           \<and> (awaitingServer ss' = None \<or> awaitingServer ss' = Some ch)"
        using ss as hash ch by auto
      have "torrents ?r = torrents st" "cbCalls ?r = cbCalls st"
        "sent ''wt-stop-server'' ?r = sent ''wt-stop-server'' st"
        "sent ''onPlayerOpen'' ?r = sent ''onPlayerOpen'' st"
        by (simp_all add: openPlayerFromActiveTorrent_frame)
      with sess inv show ?thesis
        unfolding step timedOutPending_def by simp
    next
      case False
      have "awaitingServer ss \<noteq> Some c"
        using ss(5) ev IpcMessage by auto
      then show ?thesis
        using inv ss False IpcMessage by (simp add: handleEvent_def)
    qed
  qed
qed

lemma pending_run:
  assumes "timedOutPending s0 pos ch st"
    and "pos < length (torrents s0)"
    and "ch = ''wt-server-'' @ hashStr (summaryHash (torrents s0 ! pos))"
    and "IpcMessage ch \<notin> set noise"
  shows "timedOutPending s0 pos ch (runEvents l h noise st)"
  using assms
proof (induction noise arbitrary: st)
  case Nil
  then show ?case by (simp add: runEvents_def)
next
  case (Cons ev noise)
  have "timedOutPending s0 pos ch (stateOf (handleEvent l h ev st))"
    using Cons.prems by (intro pending_step) auto
  from Cons.IH [OF this] Cons.prems show ?case
    by (simp add: runEvents_def)
qed

lemma server_ready_when_pending:
  assumes inv: "timedOutPending s0 pos ch st"
    and pos: "pos < length (torrents s0)"
    and heard: "session st = Some ss" "awaitingServer ss = Some ch"
  shows "\<exists>s3. handleEvent l h (IpcMessage ch) st = Normal s3
      \<and> session s3 = Some (ss\<lparr>awaitingServer := None\<rparr>)
      \<and> timer ss = Fired \<and> awaitingReady ss = None
      \<and> playStatus (torrents s3 ! pos) = None
      \<and> sent ''wt-stop-server'' s3 = sent ''wt-stop-server'' s0 @ [(''wt-stop-server'', [])]
      \<and> sent ''onPlayerOpen'' s3 = sent ''onPlayerOpen'' s0
      \<and> cbCalls s3 = cbCalls s0 @ [Some ''Playback timed out. Try again.'']
      \<and> playing s3 = playing st \<and> window s3 = window st"
proof -
  from inv heard have ss: "sessTorrent ss = pos" "timer ss = Fired" "awaitingReady ss = None"
    by (auto simp: timedOutPending_def)
  from inv have tor: "torrents st = (torrents s0)[pos := (torrents s0 ! pos)\<lparr>playStatus := Some ''timeout''\<rparr>]"
    and rest: "cbCalls st = cbCalls s0 @ [Some ''Playback timed out. Try again.'']"
      "sent ''wt-stop-server'' st = sent ''wt-stop-server'' s0"
      "sent ''onPlayerOpen'' st = sent ''onPlayerOpen'' s0"
    by (simp_all add: timedOutPending_def)
  have tagged: "playStatus (torrents st ! pos) = Some ''timeout''"
    using pos by (simp add: tor)
  have len: "pos < length (torrents st)" using pos by (simp add: tor)
  show ?thesis
    using heard ss tagged len rest
    by (simp add: handleEvent_def onServerReady_def Let_def clearTimeout_def)
qed

lemma runEvents_Cons:
  "runEvents l h (ev # evs) s = runEvents l h evs (stateOf (handleEvent l h ev s))"
  by (simp add: runEvents_def)

text \<open>C2: take a session whose timer is armed, let the timer fire, then any events other
  than the session's server-ready message, until the server listener is registered.
  When the server-ready message then arrives, its handler completes, the timer has fired
  and is not armed again, the listener is gone, the play status is deleted, one
  \<open>wt-stop-server\<close> is sent, no \<open>onPlayerOpen\<close> is sent, the playing state and the window are
  untouched, the callback has been called exactly once, with the timeout error, and no
  later event does anything to the session.\<close>

theorem late_server_ready_after_timeout:
  fixes s :: app_state
  assumes sess: "session s = Some ss" and armed: "timer ss = Armed"
    and pos: "sessTorrent ss < length (torrents s)"
    and ch: "ch = ''wt-server-'' @ hashStr (summaryHash (torrents s ! sessTorrent ss))"
    and one: "awaitingReady ss = None \<or> awaitingServer ss = None"
    and srv: "awaitingServer ss = None \<or> awaitingServer ss = Some ch"
    and noise: "IpcMessage ch \<notin> set noise"
    and heard: "session (runEvents l h (TimerFires # noise) s) = Some ss2"
               "awaitingServer ss2 = Some ch"
  shows "\<exists>s3. handleEvent l h (IpcMessage ch) (runEvents l h (TimerFires # noise) s) = Normal s3
      \<and> session s3 = Some (ss2\<lparr>awaitingServer := None\<rparr>)
      \<and> timer ss2 = Fired \<and> awaitingReady ss2 = None
      \<and> playStatus (torrents s3 ! sessTorrent ss) = None
      \<and> sent ''wt-stop-server'' s3 = sent ''wt-stop-server'' s @ [(''wt-stop-server'', [])]
      \<and> sent ''onPlayerOpen'' s3 = sent ''onPlayerOpen'' s
      \<and> cbCalls s3 = cbCalls s @ [Some ''Playback timed out. Try again.'']
      \<and> playing s3 = playing (runEvents l h (TimerFires # noise) s)
      \<and> window s3 = window (runEvents l h (TimerFires # noise) s)
      \<and> (\<forall>ev. handleEvent l h ev s3 = Normal s3)"
proof -
  let ?pos = "sessTorrent ss"
  let ?s2 = "runEvents l h (TimerFires # noise) s"
  have "timedOutPending s ?pos ch (stateOf (handleEvent l h TimerFires s))"
    using sess armed one srv by (intro timer_fires) auto
  then have inv: "timedOutPending s ?pos ch ?s2"
    unfolding runEvents_Cons using pos ch noise by (intro pending_run) auto
  from server_ready_when_pending [OF inv pos heard, of l h] obtain s3 where
    s3: "handleEvent l h (IpcMessage ch) ?s2 = Normal s3"
      "session s3 = Some (ss2\<lparr>awaitingServer := None\<rparr>)"
      "timer ss2 = Fired" "awaitingReady ss2 = None"
      "playStatus (torrents s3 ! ?pos) = None"
      "sent ''wt-stop-server'' s3 = sent ''wt-stop-server'' s @ [(''wt-stop-server'', [])]"
      "sent ''onPlayerOpen'' s3 = sent ''onPlayerOpen'' s"
      "cbCalls s3 = cbCalls s @ [Some ''Playback timed out. Try again.'']"
      "playing s3 = playing ?s2" "window s3 = window ?s2"
    by blast
  have inert: "\<forall>ev. handleEvent l h ev s3 = Normal s3"
    using s3(2,3,4) by (auto simp: handleEvent_def split: event.splits)
  from s3 inert show ?thesis by blast
qed

lemmas session_defs = openPlayer_def resolveIndex_def pickFileToPlay_def startTorrentingSummary_def
  setSummary_def update_def updateElectron_def hashStr_def hashArg_def handleEvent_def onTimeout_def
  openPlayerFromActiveTorrent_def checkForSubtitles_def resumeTime_def examplePlayingSummary_def
  examplePlaying_def Let_def

text \<open>A paused torrent: the timer fires, the engine becomes ready, the server is
  requested, and the server-ready message comes last.\<close>

theorem late_server_ready_after_timeout_witness:
  "sent ''wt-stop-server''
     (stateOf (handleEvent exampleLibs exampleHost (IpcMessage ''wt-server-abc'')
        (runEvents exampleLibs exampleHost [TimerFires, IpcMessage ''wt-ready-abc''] pausedSession)))
     = [(''wt-stop-server'', [])]
   \<and> sent ''onPlayerOpen''
     (stateOf (handleEvent exampleLibs exampleHost (IpcMessage ''wt-server-abc'')
        (runEvents exampleLibs exampleHost [TimerFires, IpcMessage ''wt-ready-abc''] pausedSession)))
     = []
   \<and> cbCalls
     (stateOf (handleEvent exampleLibs exampleHost (IpcMessage ''wt-server-abc'')
        (runEvents exampleLibs exampleHost [TimerFires, IpcMessage ''wt-ready-abc''] pausedSession)))
     = [Some ''Playback timed out. Try again.'']"
proof -
  let ?ss = "\<lparr>sessTorrent = 0, sessIndex = 1, timer = Armed,
              awaitingReady = Some ''wt-ready-abc'', awaitingServer = None\<rparr>"
  let ?ss2 = "\<lparr>sessTorrent = 0, sessIndex = 1, timer = Fired,
              awaitingReady = None, awaitingServer = Some ''wt-server-abc''\<rparr>"
  have p: "session pausedSession = Some ?ss"
    "torrents pausedSession = [pausedMovies\<lparr>playStatus := Some ''requested''\<rparr>]"
    "cbCalls pausedSession = []" "ipcLog pausedSession
       = [(''wt-start-torrenting'', [T (pausedMovies\<lparr>playStatus := Some ''requested''\<rparr>)])]"
    by (simp_all add: pausedSession_def pausedMovies_def movies_def summary_defs session_defs upt_rec)
  have sent0: "sent ''wt-stop-server'' pausedSession = []" "sent ''onPlayerOpen'' pausedSession = []"
    by (simp_all add: sent_def p del: filter_ipcLog)
  have hash: "''wt-server-abc'' = ''wt-server-'' @ hashStr (summaryHash (torrents pausedSession ! sessTorrent ?ss))"
    by (simp add: p pausedMovies_def movies_def exampleSummary_def hashStr_def)
  have s2: "session (runEvents exampleLibs exampleHost [TimerFires, IpcMessage ''wt-ready-abc''] pausedSession)
            = Some ?ss2"
    by (simp add: runEvents_def handleEvent_def p onTimeout_frame openPlayerFromActiveTorrent_unfold
        pausedMovies_def movies_def exampleSummary_def exampleFile_def beforeCheck_def
        checkForSubtitles_def exampleLibs_def exampleExtname_def examplePlayingSummary_def hashStr_def
        Let_def resumeTime_def split: option.splits completion.splits)
  from late_server_ready_after_timeout [of pausedSession ?ss "''wt-server-abc''"
      "[IpcMessage ''wt-ready-abc'']" exampleLibs exampleHost ?ss2, OF p(1) _ _ hash _ _ _ s2]
  obtain s3 where "handleEvent exampleLibs exampleHost (IpcMessage ''wt-server-abc'')
        (runEvents exampleLibs exampleHost [TimerFires, IpcMessage ''wt-ready-abc''] pausedSession) = Normal s3"
      "sent ''wt-stop-server'' s3 = sent ''wt-stop-server'' pausedSession @ [(''wt-stop-server'', [])]"
      "sent ''onPlayerOpen'' s3 = sent ''onPlayerOpen'' pausedSession"
      "cbCalls s3 = cbCalls pausedSession @ [Some ''Playback timed out. Try again.'']"
    by (auto simp: p)
  then show ?thesis by (simp add: sent0 p)
qed

end
